theory Spec2Isabelle
  imports Complex_Main "HOL-Library.Sublist" "HOL-Library.Multiset" "HOL-Library.Log_Nat"
begin

section \<open>Time values of the host language\<close>

text \<open>
  The program is TypeScript; its dates are ECMAScript \<^verbatim>\<open>Date\<close> objects. A \<^verbatim>\<open>Date\<close> holds a time
  value: an integral number of milliseconds since the epoch, or NaN (an invalid date).
  The functions below follow the abstract operations of ECMA-262 (section "Date Objects").
  The local time zone is taken to have offset 0 and no daylight saving, so that
  \<^verbatim>\<open>LocalTime\<close> and \<^verbatim>\<open>UTC\<close> are the identity; in any zone with a fixed offset the same
  calendar arithmetic applies to the shifted time values. \<^verbatim>\<open>MakeDay\<close> is taken without its
  failure for a month that begins outside the range of time values; \<^verbatim>\<open>TimeClip\<close> rejects
  a result outside the range.
\<close>

type_synonym Date = "int option"
  \<comment> \<open>\<open>None\<close> is the time value NaN of an invalid date\<close>

definition msPerDay :: int where
  "msPerDay = 86400000"

definition Day :: "int \<Rightarrow> int" where
  "Day t = t div msPerDay"

definition TimeWithinDay :: "int \<Rightarrow> int" where
  "TimeWithinDay t = t mod msPerDay"

definition DaysInYear :: "int \<Rightarrow> int" where
  "DaysInYear y =
     (if y mod 4 \<noteq> 0 then 365
      else if y mod 100 \<noteq> 0 then 366
      else if y mod 400 \<noteq> 0 then 365
      else 366)"

definition DayFromYear :: "int \<Rightarrow> int" where
  "DayFromYear y =
     365 * (y - 1970) + (y - 1969) div 4 - (y - 1901) div 100 + (y - 1601) div 400"

text \<open>
  ECMA-262 defines \<^verbatim>\<open>YearFromTime(t)\<close> as the largest year whose first day is not after
  \<open>t\<close>. The definition here computes it: an estimate from the mean length of a year,
  corrected by at most one year. Lemma \<open>YearFromDay_bounds\<close> below shows that it meets
  the defining property of the standard.
\<close>

definition YearFromDay :: "int \<Rightarrow> int" where
  "YearFromDay d =
     (let y = 1970 + (400 * d) div 146097 in
      if d < DayFromYear y then y - 1
      else if DayFromYear (y + 1) \<le> d then y + 1
      else y)"

definition YearFromTime :: "int \<Rightarrow> int" where
  "YearFromTime t = YearFromDay (Day t)"

definition InLeapYear :: "int \<Rightarrow> int" where
  "InLeapYear t = (if DaysInYear (YearFromTime t) = 366 then 1 else 0)"

definition DayWithinYear :: "int \<Rightarrow> int" where
  "DayWithinYear t = Day t - DayFromYear (YearFromTime t)"

definition MonthFromTime :: "int \<Rightarrow> int" where
  "MonthFromTime t =
     (let d = DayWithinYear t; l = InLeapYear t in
      if d < 31 then 0
      else if d < 59 + l then 1
      else if d < 90 + l then 2
      else if d < 120 + l then 3
      else if d < 151 + l then 4
      else if d < 181 + l then 5
      else if d < 212 + l then 6
      else if d < 243 + l then 7
      else if d < 273 + l then 8
      else if d < 304 + l then 9
      else if d < 334 + l then 10
      else 11)"

text \<open>The day within the year on which month \<open>m\<close> (0 to 11) begins; \<open>l\<close> is 1 in a leap year.\<close>

definition DayFromMonth :: "int \<Rightarrow> int \<Rightarrow> int" where
  "DayFromMonth m l =
     (if m = 0 then 0
      else if m = 1 then 31
      else if m = 2 then 59 + l
      else if m = 3 then 90 + l
      else if m = 4 then 120 + l
      else if m = 5 then 151 + l
      else if m = 6 then 181 + l
      else if m = 7 then 212 + l
      else if m = 8 then 243 + l
      else if m = 9 then 273 + l
      else if m = 10 then 304 + l
      else 334 + l)"

text \<open>
  The day of the month; ECMA-262 gives it as a table over the months, which is the day
  within the year less the first day of the month, plus one.
\<close>

definition DateFromTime :: "int \<Rightarrow> int" where
  "DateFromTime t = DayWithinYear t - DayFromMonth (MonthFromTime t) (InLeapYear t) + 1"

definition WeekDay :: "int \<Rightarrow> int" where
  "WeekDay t = (Day t + 4) mod 7"

definition MakeTime :: "int \<Rightarrow> int \<Rightarrow> int \<Rightarrow> int \<Rightarrow> int" where
  "MakeTime hour minute sec ms = hour * 3600000 + minute * 60000 + sec * 1000 + ms"

definition MakeDay :: "int \<Rightarrow> int \<Rightarrow> int \<Rightarrow> int" where
  "MakeDay year month date =
     (let ym = year + month div 12; mn = month mod 12 in
      DayFromYear ym + DayFromMonth mn (if DaysInYear ym = 366 then 1 else 0) + date - 1)"

definition MakeDate :: "int \<Rightarrow> int \<Rightarrow> int" where
  "MakeDate day time = day * msPerDay + time"

definition TimeClip :: "int \<Rightarrow> Date" where
  "TimeClip t = (if \<bar>t\<bar> > 8640000000000000 then None else Some t)"

text \<open>
  The constructor \<^verbatim>\<open>new Date(year, month, date)\<close>: a year from 0 to 99 stands for
  1900 + year.
\<close>

definition new_Date :: "int \<Rightarrow> int \<Rightarrow> int \<Rightarrow> Date" where
  "new_Date year month date =
     (let yr = (if 0 \<le> year \<and> year \<le> 99 then 1900 + year else year) in
      TimeClip (MakeDate (MakeDay yr month date) (MakeTime 0 0 0 0)))"

text \<open>The methods \<^verbatim>\<open>setDate\<close>, \<^verbatim>\<open>setMonth\<close> and \<^verbatim>\<open>setHours\<close>, returning the new time value.\<close>

definition setDate :: "Date \<Rightarrow> int \<Rightarrow> Date" where
  "setDate this dt =
     (case this of
        None \<Rightarrow> None
      | Some t \<Rightarrow>
          TimeClip (MakeDate (MakeDay (YearFromTime t) (MonthFromTime t) dt) (TimeWithinDay t)))"

definition setMonth :: "Date \<Rightarrow> int \<Rightarrow> Date" where
  "setMonth this m =
     (case this of
        None \<Rightarrow> None
      | Some t \<Rightarrow>
          TimeClip (MakeDate (MakeDay (YearFromTime t) m (DateFromTime t)) (TimeWithinDay t)))"

definition setHours :: "Date \<Rightarrow> int \<Rightarrow> int \<Rightarrow> int \<Rightarrow> int \<Rightarrow> Date" where
  "setHours this h m s ms =
     (case this of
        None \<Rightarrow> None
      | Some t \<Rightarrow> TimeClip (MakeDate (Day t) (MakeTime h m s ms)))"

text \<open>Relational comparison of dates compares the time values; with NaN it is false.\<close>

definition date_le :: "Date \<Rightarrow> Date \<Rightarrow> bool" where
  "date_le a b = (case a of None \<Rightarrow> False | Some x \<Rightarrow> (case b of None \<Rightarrow> False | Some y \<Rightarrow> x \<le> y))"

definition date_ge :: "Date \<Rightarrow> Date \<Rightarrow> bool" where
  "date_ge a b = (case a of None \<Rightarrow> False | Some x \<Rightarrow> (case b of None \<Rightarrow> False | Some y \<Rightarrow> x \<ge> y))"

section \<open>Numbers of the host language\<close>

text \<open>
  A \<^verbatim>\<open>number\<close> is a double of IEEE 754. A finite number is modelled as the real that it
  stands for, and an arithmetic operation as the exact operation followed by \<open>fl\<close>, the
  rounding to the nearest double, to the even one of two nearest. A double is
  \<open>m * 2 powi (e - 52)\<close> with an integer \<open>m\<close> of at most 53 bits and \<open>e\<close> from -1022;
  \<open>exponent x\<close> is the \<open>e\<close> with \<open>2 powi e \<le> \<bar>x\<bar> < 2 powi (e + 1)\<close>. A result of magnitude
  \<open>2 ^ 1024\<close> or more, which the host language gives as Infinity, is outside the model.
\<close>

definition exponent :: "real \<Rightarrow> int" where
  "exponent x =
     (if 1 \<le> \<bar>x\<bar> then bitlen \<lfloor>\<bar>x\<bar>\<rfloor> - 1
      else - bitlen (\<lceil>1 / \<bar>x\<bar>\<rceil> - 1))"

definition round_half_even :: "real \<Rightarrow> int" where
  "round_half_even x =
     (let f = \<lfloor>x\<rfloor>; d = x - of_int f in
      if d < 1 / 2 then f
      else if 1 / 2 < d then f + 1
      else if even f then f
      else f + 1)"

definition fl :: "real \<Rightarrow> real" where
  "fl x =
     (if x = 0 then 0
      else
        (let e = max (exponent x) (- 1022);
             ulp = 2 powi (e - 52)
         in of_int (round_half_even (x / ulp)) * ulp))"

text \<open>The operators \<^verbatim>\<open>+\<close>, \<^verbatim>\<open>-\<close> and \<^verbatim>\<open>/\<close> on numbers.\<close>

definition add_number :: "real \<Rightarrow> real \<Rightarrow> real" where
  "add_number x y = fl (x + y)"

definition sub_number :: "real \<Rightarrow> real \<Rightarrow> real" where
  "sub_number x y = fl (x - y)"

definition div_number :: "real \<Rightarrow> real \<Rightarrow> real" where
  "div_number x y = fl (x / y)"

section \<open>Data model\<close>

text \<open>
  Modelled from the spec: the type declarations \<^verbatim>\<open>Debt\<close>, \<^verbatim>\<open>DebtTransaction\<close> and
  \<^verbatim>\<open>FilterState\<close> (module \<^verbatim>\<open>types\<close>) are not among the source files. The records below
  take their fields from section 3 of the specification and from the object literals of
  \<^verbatim>\<open>App.tsx\<close>. Amounts are numbers of the host language. A field that may be
  \<^verbatim>\<open>undefined\<close> is an \<open>option\<close>. Strings are byte lists; a character outside ASCII is
  written as its UTF-8 bytes.
\<close>

datatype TransactionType = payment | withdrawal

record DebtTransaction =
  id_tx :: string
  date_tx :: Date
  amount_tx :: real
  type_tx :: TransactionType
  reason_tx :: "string option"

record Debt =
  id_debt :: string
  name :: string
  source :: string
  totalAmount :: real
  amountPaid :: real
  dueDate :: Date
  createdAt :: Date
  targetMonth :: "int option"
  targetYear :: "int option"
  transactions :: "DebtTransaction list option"

datatype FilterType = all_f | year_f | month_f | week_f

record FilterState =
  type_filter :: FilterType
  year_filter :: int
  month_filter :: "int option"
  week_filter :: "int option"

text \<open>Conversion of an integral number to a string, as in a template literal.\<close>

fun digits :: "nat \<Rightarrow> string" where
  "digits n =
     (if n < 10 then [''0123456789'' ! n]
      else digits (n div 10) @ [''0123456789'' ! (n mod 10)])"

definition toString :: "int \<Rightarrow> string" where
  "toString n = (if n < 0 then ''-'' @ digits (nat (- n)) else digits (nat n))"

section \<open>Calendar utilities\<close>

text \<open>
  \<^verbatim>\<open>getWeekRange\<close> of the date utilities. The local \<^verbatim>\<open>d\<close> is mutated by \<^verbatim>\<open>setDate\<close>,
  whose result is the time value of \<^verbatim>\<open>start\<close>; \<^verbatim>\<open>end\<close> is a copy of \<^verbatim>\<open>start\<close> moved by
  six days. With an invalid \<^verbatim>\<open>d\<close> every number derived from it is NaN and both dates are
  invalid.
\<close>

definition getWeekRange :: "int \<Rightarrow> int \<Rightarrow> Date \<times> Date" where
  "getWeekRange year weekNumber =
     (case new_Date year 0 (1 + (weekNumber - 1) * 7) of
        None \<Rightarrow> (None, None)
      | Some d \<Rightarrow>
          (let day = WeekDay d;
               diff = DateFromTime d - day + (if day = 0 then - 6 else 1);
               start = setDate (Some d) diff;
               end_date = (case start of
                             None \<Rightarrow> None
                           | Some s \<Rightarrow> setDate start (DateFromTime s + 6))
           in (start, end_date)))"

text \<open>
  \<^verbatim>\<open>daysBetween\<close>: the absolute difference of the time values in days, rounded by
  \<^verbatim>\<open>Math.round\<close>, which rounds a half upward, as \<open>round\<close> does. With an invalid date the
  result is NaN.
\<close>

definition daysBetween :: "Date \<Rightarrow> Date \<Rightarrow> int option" where
  "daysBetween date1 date2 =
     (case date1 of
        None \<Rightarrow> None
      | Some t1 \<Rightarrow>
          (case date2 of
             None \<Rightarrow> None
           | Some t2 \<Rightarrow>
               (let oneDay = 1000 * 60 * 60 * 24;
                    diff = \<bar>sub_number (of_int t1) (of_int t2)\<bar>
                in Some (round (div_number diff oneDay)))))"

text \<open>
  \<^verbatim>\<open>isDateInFilter\<close>. The test \<^verbatim>\<open>if (week)\<close> is false for an absent week and for the
  week number 0.
\<close>

definition isDateInFilter :: "Date \<Rightarrow> FilterState \<Rightarrow> bool" where
  "isDateInFilter date flt =
     (case type_filter flt of
        all_f \<Rightarrow> True
      | year_f \<Rightarrow>
          (case date of None \<Rightarrow> False | Some t \<Rightarrow> YearFromTime t = year_filter flt)
      | month_f \<Rightarrow>
          (case date of
             None \<Rightarrow> False
           | Some t \<Rightarrow>
               YearFromTime t = year_filter flt \<and> Some (MonthFromTime t) = month_filter flt)
      | week_f \<Rightarrow>
          (case week_filter flt of
             None \<Rightarrow> False
           | Some week \<Rightarrow>
               if week \<noteq> 0 then
                 (case getWeekRange (year_filter flt) week of
                    (start, end_date) \<Rightarrow>
                      (let end_date' = setHours end_date 23 59 59 999
                       in date_ge date start \<and> date_le date end_date'))
               else False))"

section \<open>Debt ledger\<close>

text \<open>The expression \<^verbatim>\<open>d.transactions || []\<close>.\<close>

definition transactions_or_empty :: "Debt \<Rightarrow> DebtTransaction list" where
  "transactions_or_empty d = (case transactions d of None \<Rightarrow> [] | Some ts \<Rightarrow> ts)"

text \<open>
  The handlers read the clock: \<^verbatim>\<open>Date.now()\<close> is the parameter \<open>now_ms\<close> and
  \<^verbatim>\<open>new Date()\<close> the parameter \<open>now\<close>. The state updater maps over the previous list.
\<close>

definition handleAddPayment :: "Debt list \<Rightarrow> string \<Rightarrow> real \<Rightarrow> int \<Rightarrow> Date \<Rightarrow> Debt list" where
  "handleAddPayment prev i amount now_ms now =
     map (\<lambda>d.
       if id_debt d = i then
         (let newTransaction =
            \<lparr>id_tx = toString now_ms, date_tx = now, amount_tx = amount,
             type_tx = payment, reason_tx = None\<rparr>
          in d\<lparr>amountPaid := add_number (amountPaid d) amount,
               transactions := Some (transactions_or_empty d @ [newTransaction])\<rparr>)
       else d) prev"

definition handleWithdrawPayment ::
    "Debt list \<Rightarrow> string \<Rightarrow> real \<Rightarrow> string \<Rightarrow> int \<Rightarrow> Date \<Rightarrow> Debt list" where
  "handleWithdrawPayment prev i amount reason now_ms now =
     map (\<lambda>d.
       if id_debt d = i then
         (let newTransaction =
            \<lparr>id_tx = toString now_ms, date_tx = now, amount_tx = amount,
             type_tx = withdrawal, reason_tx = Some reason\<rparr>
          in d\<lparr>amountPaid := max 0 (sub_number (amountPaid d) amount),
               transactions := Some (transactions_or_empty d @ [newTransaction])\<rparr>)
       else d) prev"

text \<open>The records that the two handlers append to the transactions of a debt.\<close>

definition paymentRecord :: "real \<Rightarrow> int \<Rightarrow> Date \<Rightarrow> DebtTransaction" where
  "paymentRecord amount now_ms now =
     \<lparr>id_tx = toString now_ms, date_tx = now, amount_tx = amount,
      type_tx = payment, reason_tx = None\<rparr>"

definition withdrawalRecord :: "real \<Rightarrow> string \<Rightarrow> int \<Rightarrow> Date \<Rightarrow> DebtTransaction" where
  "withdrawalRecord amount reason now_ms now =
     \<lparr>id_tx = toString now_ms, date_tx = now, amount_tx = amount,
      type_tx = withdrawal, reason_tx = Some reason\<rparr>"

text \<open>
  The component \<^verbatim>\<open>DebtItem\<close> shows one debt and keeps the amount typed by the user, the
  flag of the reason panel and the reason. Its handlers return the new component state
  and the alert shown, if any; \<^verbatim>\<open>handleAdd\<close> and \<^verbatim>\<open>confirmWithdraw\<close> also update the list
  of debts through the callbacks \<^verbatim>\<open>onAddPayment\<close> and \<^verbatim>\<open>onWithdrawPayment\<close>.
\<close>

record DebtItemState =
  inputValue :: real
  showWithdrawReason :: bool
  withdrawReason :: string

datatype Alert = CannotWithdrawMoreThanPaid | WithdrawReasonRequired

text \<open>
  The initial state of the component: \<^verbatim>\<open>useState(0)\<close>, \<^verbatim>\<open>useState(false)\<close> and
  \<^verbatim>\<open>useState('')\<close>.
\<close>

definition initialDebtItemState :: DebtItemState where
  "initialDebtItemState = \<lparr>inputValue = 0, showWithdrawReason = False, withdrawReason = []\<rparr>"

definition setInputValue :: "real \<Rightarrow> DebtItemState \<Rightarrow> DebtItemState" where
  "setInputValue v st = st\<lparr>inputValue := v\<rparr>"

definition setWithdrawReason :: "string \<Rightarrow> DebtItemState \<Rightarrow> DebtItemState" where
  "setWithdrawReason r st = st\<lparr>withdrawReason := r\<rparr>"

definition handleAdd ::
    "Debt \<Rightarrow> DebtItemState \<Rightarrow> Debt list \<Rightarrow> int \<Rightarrow> Date \<Rightarrow> DebtItemState \<times> Debt list" where
  "handleAdd debt st debts now_ms now =
     (if inputValue st \<le> 0 then (st, debts)
      else (st\<lparr>inputValue := 0\<rparr>,
            handleAddPayment debts (id_debt debt) (inputValue st) now_ms now))"

definition initiateWithdraw :: "Debt \<Rightarrow> DebtItemState \<Rightarrow> DebtItemState \<times> Alert option" where
  "initiateWithdraw debt st =
     (if inputValue st \<le> 0 then (st, None)
      else if inputValue st > amountPaid debt then (st, Some CannotWithdrawMoreThanPaid)
      else (st\<lparr>showWithdrawReason := True\<rparr>, None))"

text \<open>
  \<^verbatim>\<open>withdrawReason.trim()\<close> removes the white space and line terminators of ECMA-262 at
  both ends. Strings are UTF-8 here, so each of these characters is a sequence of one to
  three bytes: U+0009 to U+000D, U+0020, U+00A0, U+1680, U+2000 to U+200A, U+2028, U+2029,
  U+202F, U+205F, U+3000 and U+FEFF.
\<close>

definition white_space :: "string list" where
  "white_space =
     [[CHR 0x09], [CHR 0x0A], [CHR 0x0B], [CHR 0x0C], [CHR 0x0D], [CHR 0x20],
      [CHR 0xC2, CHR 0xA0],
      [CHR 0xE1, CHR 0x9A, CHR 0x80],
      [CHR 0xE2, CHR 0x80, CHR 0x80], [CHR 0xE2, CHR 0x80, CHR 0x81],
      [CHR 0xE2, CHR 0x80, CHR 0x82], [CHR 0xE2, CHR 0x80, CHR 0x83],
      [CHR 0xE2, CHR 0x80, CHR 0x84], [CHR 0xE2, CHR 0x80, CHR 0x85],
      [CHR 0xE2, CHR 0x80, CHR 0x86], [CHR 0xE2, CHR 0x80, CHR 0x87],
      [CHR 0xE2, CHR 0x80, CHR 0x88], [CHR 0xE2, CHR 0x80, CHR 0x89],
      [CHR 0xE2, CHR 0x80, CHR 0x8A],
      [CHR 0xE2, CHR 0x80, CHR 0xA8], [CHR 0xE2, CHR 0x80, CHR 0xA9],
      [CHR 0xE2, CHR 0x80, CHR 0xAF],
      [CHR 0xE2, CHR 0x81, CHR 0x9F],
      [CHR 0xE3, CHR 0x80, CHR 0x80],
      [CHR 0xEF, CHR 0xBB, CHR 0xBF]]"

text \<open>Removing, at the start of a string, every leading occurrence of one of the patterns.\<close>

function strip :: "string list \<Rightarrow> string \<Rightarrow> string" where
  "strip ws s =
     (case List.find (\<lambda>w. w \<noteq> [] \<and> prefix w s) ws of
        None \<Rightarrow> s
      | Some w \<Rightarrow> strip ws (drop (length w) s))"
  by pat_completeness auto

termination
proof (relation "measure (\<lambda>(ws, s). length s)")
  show "wf (measure (\<lambda>(ws, s). length s))" by simp
next
  fix ws :: "string list" and s w :: string
  assume "List.find (\<lambda>w. w \<noteq> [] \<and> prefix w s) ws = Some w"
  then have "w \<noteq> []" "prefix w s" by (auto simp: find_Some_iff)
  then have "length s - length w < length s"
    using prefix_length_le [of w s] by (cases w) auto
  then show "((ws, drop (length w) s), (ws, s)) \<in> measure (\<lambda>(ws, s). length s)" by simp
qed

declare strip.simps [simp del]

definition trimStart :: "string \<Rightarrow> string" where
  "trimStart s = strip white_space s"

definition trimEnd :: "string \<Rightarrow> string" where
  "trimEnd s = rev (strip (map rev white_space) (rev s))"

definition trim :: "string \<Rightarrow> string" where
  "trim s = trimEnd (trimStart s)"

definition confirmWithdraw ::
    "Debt \<Rightarrow> DebtItemState \<Rightarrow> Debt list \<Rightarrow> int \<Rightarrow> Date
       \<Rightarrow> (DebtItemState \<times> Debt list) \<times> Alert option" where
  "confirmWithdraw debt st debts now_ms now =
     (if trim (withdrawReason st) = [] then ((st, debts), Some WithdrawReasonRequired)
      else
        ((st\<lparr>showWithdrawReason := False, withdrawReason := [], inputValue := 0\<rparr>,
          handleWithdrawPayment debts (id_debt debt) (inputValue st) (withdrawReason st)
            now_ms now),
         None))"

text \<open>The split of the debts into active and completed ones: a left fold that appends.\<close>

definition activeDebts_completedDebts :: "Debt list \<Rightarrow> Debt list \<times> Debt list" where
  "activeDebts_completedDebts debts =
     foldl (\<lambda>(activeDebts, completedDebts) debt.
              if amountPaid debt \<ge> totalAmount debt
              then (activeDebts, completedDebts @ [debt])
              else (activeDebts @ [debt], completedDebts))
           ([], []) debts"

definition activeDebts :: "Debt list \<Rightarrow> Debt list" where
  "activeDebts debts = fst (activeDebts_completedDebts debts)"

definition completedDebts :: "Debt list \<Rightarrow> Debt list" where
  "completedDebts debts = snd (activeDebts_completedDebts debts)"

section \<open>Aggregation\<close>

text \<open>
  The weekly contribution is a number, or NaN (\<open>None\<close>), which arises from an invalid due
  date. The argument is the list of active debts; \<open>now\<close> is the clock. \<^verbatim>\<open>Math.ceil\<close> is
  exact.
\<close>

definition weeklyDebtContribution :: "Date \<Rightarrow> Debt list \<Rightarrow> real option" where
  "weeklyDebtContribution now active =
     foldl (\<lambda>total debt.
              (let remainingAmount = sub_number (totalAmount debt) (amountPaid debt) in
               if remainingAmount \<le> 0 then total
               else
                 (case daysBetween now (dueDate debt) of
                    None \<Rightarrow> None
                  | Some days \<Rightarrow>
                      (let weeksLeft = \<lceil>div_number (of_int days) 7\<rceil> in
                       if weeksLeft \<le> 0
                       then map_option (\<lambda>t. add_number t remainingAmount) total
                       else map_option
                              (\<lambda>t. add_number t (div_number remainingAmount (of_int weeksLeft)))
                              total))))
           (Some 0) active"

section \<open>Creation of debts\<close>

text \<open>
  The handler \<^verbatim>\<open>handleSaveDebt\<close> builds the list \<^verbatim>\<open>debtsToAdd\<close> and appends it to the
  debts. Its branch for Shopee SPayLater builds one debt from the month and year of the
  bill and the amount of the form.
\<close>

definition shopeeDebt :: "int \<Rightarrow> int \<Rightarrow> real \<Rightarrow> int \<Rightarrow> Date \<Rightarrow> Debt" where
  "shopeeDebt shopeeBillMonth shopeeBillYear newTotalAmount now_ms now =
     (let billMonth = shopeeBillMonth;
          billYear = shopeeBillYear;
          dueMonth = billMonth + 1;
          dueYear = billYear;
          (dueMonth, dueYear) = (if dueMonth > 11 then (0, dueYear + 1) else (dueMonth, dueYear));
          dueDate' = new_Date dueYear dueMonth 10
      in \<lparr>id_debt = toString now_ms,
          name = ''SPayLater - H'' @ [CHR 0xC3, CHR 0xB3] @ ''a ''
                   @ [CHR 0xC4, CHR 0x91, CHR 0xC6, CHR 0xA1] @ ''n T'' @ toString (billMonth + 1),
          source = ''Shopee SPayLater'',
          totalAmount = newTotalAmount,
          amountPaid = 0,
          dueDate = dueDate',
          createdAt = now,
          targetMonth = Some dueMonth,
          targetYear = Some dueYear,
          transactions = Some []\<rparr>)"

text \<open>The calendar month that follows month \<open>m\<close> (0 to 11) of year \<open>y\<close>.\<close>

definition followingMonth :: "int \<Rightarrow> int" where
  "followingMonth m = (if m = 11 then 0 else m + 1)"

definition followingYear :: "int \<Rightarrow> int \<Rightarrow> int" where
  "followingYear m y = (if m = 11 then y + 1 else y)"

text \<open>
  The branch for a recurring debt runs a loop over \<^verbatim>\<open>currentDate\<close>. The step that the
  source marks "Advance Date" is \<open>advanceDate\<close>; the name suffix of an instalment is
  \<open>debtNameSuffix\<close>.
\<close>

datatype Frequency = weekly | monthly

definition advanceDate :: "Frequency \<Rightarrow> int \<Rightarrow> Date" where
  "advanceDate recurringFrequency t =
     (if recurringFrequency = weekly then setDate (Some t) (DateFromTime t + 7)
      else setMonth (Some t) (MonthFromTime t + 1))"

definition debtNameSuffix :: "Frequency \<Rightarrow> int \<Rightarrow> int \<Rightarrow> int \<Rightarrow> string" where
  "debtNameSuffix recurringFrequency month year count' =
     (if recurringFrequency = monthly
      then ''(Th'' @ [CHR 0xC3, CHR 0xA1] @ ''ng '' @ toString (month + 1) @ ''/''
             @ toString year @ '')''
      else ''(K'' @ [CHR 0xE1, CHR 0xBB, CHR 0xB3] @ '' '' @ toString count' @ '')'')"

section \<open>Example values\<close>

text \<open>Two debts for the concrete instances below.\<close>

definition exampleDebt :: Debt where
  "exampleDebt =
     \<lparr>id_debt = ''1700000000000'', name = ''Loan'', source = ''Bank'', totalAmount = 700,
      amountPaid = 100, dueDate = Some 1709251200000, createdAt = Some 1700000000000,
      targetMonth = Some 2, targetYear = Some 2024, transactions = Some []\<rparr>"

definition otherDebt :: Debt where
  "otherDebt =
     \<lparr>id_debt = ''1700000000001'', name = ''Phone'', source = ''Shop'', totalAmount = 300,
      amountPaid = 300, dueDate = Some 1711929600000, createdAt = Some 1700000000001,
      targetMonth = None, targetYear = None, transactions = None\<rparr>"

section \<open>Facts about numbers\<close>

text \<open>The exponent of a number other than 0 is the one of its binary order of magnitude.\<close>

lemma exponent_bounds:
  assumes "x \<noteq> 0"
  shows "2 powi exponent x \<le> \<bar>x\<bar> \<and> \<bar>x\<bar> < 2 powi (exponent x + 1)"
proof (cases "1 \<le> \<bar>x\<bar>")
  case True
  define n where "n = \<lfloor>\<bar>x\<bar>\<rfloor>"
  define b where "b = bitlen n"
  have n1: "1 \<le> n" using True by (simp add: n_def le_floor_iff)
  then have pos: "0 < n" by simp
  have bb: "2 ^ nat (b - 1) \<le> n" "n < 2 ^ nat b"
    using bitlen_bounds [OF pos] by (simp_all add: b_def)
  have b1: "1 \<le> b" using pos bitlen_eq_zero_iff [of n] bitlen_nonneg [of n] by (simp add: b_def)
  have e: "exponent x = b - 1" using True by (simp add: exponent_def n_def b_def)
  have p1: "(2::real) powi (b - 1) = 2 ^ nat (b - 1)" using b1 by (simp add: power_int_def)
  have p2: "(2::real) powi (b - 1 + 1) = 2 ^ nat b" using b1 by (simp add: power_int_def)
  have "real_of_int (2 ^ nat (b - 1)) \<le> real_of_int n" using bb(1) by (rule of_int_le_iff [THEN iffD2])
  also have "real_of_int n \<le> \<bar>x\<bar>" by (simp add: n_def)
  finally have lo: "2 ^ nat (b - 1) \<le> \<bar>x\<bar>" by simp
  have "n + 1 \<le> 2 ^ nat b" using bb(2) by simp
  then have "real_of_int (n + 1) \<le> real_of_int (2 ^ nat b)" by (rule of_int_le_iff [THEN iffD2])
  moreover have "\<bar>x\<bar> < real_of_int (n + 1)" unfolding n_def by linarith
  ultimately have hi: "\<bar>x\<bar> < 2 ^ nat b" by simp
  show ?thesis unfolding e p1 p2 using lo hi by simp
next
  case False
  define y where "y = 1 / \<bar>x\<bar>"
  define n where "n = \<lceil>y\<rceil> - 1"
  define k where "k = bitlen n"
  have ax: "0 < \<bar>x\<bar>" "\<bar>x\<bar> < 1" using assms False by simp_all
  have y1: "1 < y" using ax by (simp add: y_def)
  have n1: "1 \<le> n" using y1 by (simp add: n_def)
  then have pos: "0 < n" by simp
  have bb: "2 ^ nat (k - 1) \<le> n" "n < 2 ^ nat k"
    using bitlen_bounds [OF pos] by (simp_all add: k_def)
  have k1: "1 \<le> k" using pos bitlen_eq_zero_iff [of n] bitlen_nonneg [of n] by (simp add: k_def)
  have e: "exponent x = - k" using False by (simp add: exponent_def n_def k_def y_def)
  have p1: "(2::real) powi (- k) = 1 / 2 ^ nat k"
    using k1 by (simp add: power_int_def field_simps)
  have p2: "(2::real) powi (- k + 1) = 1 / 2 ^ nat (k - 1)"
    using k1 by (simp add: power_int_def field_simps)
  have "n + 1 \<le> 2 ^ nat k" using bb(2) by simp
  then have "real_of_int (n + 1) \<le> real_of_int (2 ^ nat k)" by (rule of_int_le_iff [THEN iffD2])
  moreover have "y \<le> real_of_int (n + 1)" by (simp add: n_def)
  ultimately have yhi: "y \<le> 2 ^ nat k" by simp
  have "(2::real) ^ nat (k - 1) = real_of_int (2 ^ nat (k - 1))" by simp
  also have "\<dots> \<le> real_of_int n" using bb(1) by (rule of_int_le_iff [THEN iffD2])
  also have "real_of_int n < y" unfolding n_def by linarith
  finally have ylo: "2 ^ nat (k - 1) < y" .
  have lo: "1 / 2 ^ nat k \<le> \<bar>x\<bar>"
    using yhi ax(1) by (simp add: y_def field_simps)
  have hi: "\<bar>x\<bar> < 1 / 2 ^ nat (k - 1)"
    using ylo ax(1) by (simp add: y_def field_simps)
  show ?thesis unfolding e p1 p2 using lo hi by simp
qed

lemma round_half_even_of_int: "round_half_even (of_int k) = k"
  by (simp add: round_half_even_def)

lemma round_half_even_nonneg: "0 \<le> x \<Longrightarrow> 0 \<le> round_half_even x"
  by (auto simp: round_half_even_def Let_def)

lemma fl_nonneg: "0 \<le> x \<Longrightarrow> 0 \<le> fl x"
proof -
  assume x: "0 \<le> x"
  have "0 \<le> round_half_even (x / 2 powi (max (exponent x) (- 1022) - 52))"
    using x by (intro round_half_even_nonneg) simp
  then show ?thesis by (simp add: fl_def Let_def)
qed

lemma exponent_of_int: "k \<noteq> 0 \<Longrightarrow> exponent (of_int k) = bitlen \<bar>k\<bar> - 1"
proof -
  assume "k \<noteq> 0"
  then have "1 \<le> \<bar>k\<bar>" by simp
  then have "(1::real) \<le> \<bar>of_int k\<bar>" by (metis of_int_abs of_int_1_le_iff)
  moreover have "\<lfloor>\<bar>of_int k :: real\<bar>\<rfloor> = \<bar>k\<bar>" by (metis of_int_abs floor_of_int)
  ultimately show ?thesis by (simp add: exponent_def)
qed

text \<open>Every integer of magnitude up to \<open>2 ^ 53\<close> is a double.\<close>

lemma fl_of_int:
  assumes "\<bar>k\<bar> \<le> 9007199254740992"
  shows "fl (of_int k) = of_int k"
proof (cases "k = 0")
  case True
  then show ?thesis by (simp add: fl_def)
next
  case False
  define b where "b = bitlen \<bar>k\<bar>"
  have pos: "0 < \<bar>k\<bar>" using False by simp
  have bb: "2 ^ nat (b - 1) \<le> \<bar>k\<bar>" "\<bar>k\<bar> < 2 ^ nat b"
    using bitlen_bounds [OF pos] by (simp_all add: b_def)
  have b1: "1 \<le> b" using pos bitlen_eq_zero_iff [of "\<bar>k\<bar>"] bitlen_nonneg [of "\<bar>k\<bar>"]
    by (simp add: b_def)
  have "(2::int) ^ nat (b - 1) \<le> 2 ^ 53" using bb(1) assms by simp
  then have "nat (b - 1) \<le> 53" by (rule power_le_imp_le_exp [rotated]) simp
  then have b54: "b \<le> 54" by simp
  have e: "max (exponent (of_int k)) (- 1022) = b - 1"
    using exponent_of_int [OF False] b1 by (simp add: b_def)
  have "\<exists>j. (of_int k :: real) / 2 powi (b - 53) = of_int j"
  proof (cases "b \<le> 53")
    case True
    then have "(2::real) powi (b - 53) = 1 / 2 ^ nat (53 - b)"
      by (simp add: power_int_def nat_diff_distrib field_simps)
    then have "(of_int k :: real) / 2 powi (b - 53) = of_int (k * 2 ^ nat (53 - b))"
      by simp
    then show ?thesis by blast
  next
    case False
    then have b: "b = 54" using b54 by simp
    then have "\<bar>k\<bar> = 9007199254740992" using bb(1) assms by simp
    then have kk: "k = 9007199254740992 \<or> k = - 9007199254740992" by linarith
    have "(of_int k :: real) / 2 powi (b - 53) = of_int (k div 2)"
      using kk b by (auto simp: power_int_def)
    then show ?thesis by blast
  qed
  then obtain j where j: "(of_int k :: real) / 2 powi (b - 53) = of_int j" by blast
  have "fl (of_int k) = of_int j * 2 powi (b - 53)"
    using False by (simp add: fl_def e Let_def j round_half_even_of_int)
  also have "\<dots> = of_int k" using j by (simp add: field_simps)
  finally show ?thesis .
qed

lemma fl_numeral: "numeral n \<le> (9007199254740992::int) \<Longrightarrow> fl (numeral n) = numeral n"
  using fl_of_int [of "numeral n"] by simp

lemma fl_neg_numeral:
  "numeral n \<le> (9007199254740992::int) \<Longrightarrow> fl (- numeral n) = - numeral n"
  using fl_of_int [of "- numeral n"] by simp

lemma bitlen_eqI: "2 ^ n \<le> x \<Longrightarrow> x < 2 ^ Suc n \<Longrightarrow> bitlen x = int n + 1"
proof -
  assume a: "2 ^ n \<le> x" "x < 2 ^ Suc n"
  then have pos: "0 < x" by (smt (verit) zero_less_power)
  note bb = bitlen_bounds [OF pos]
  have b1: "1 \<le> bitlen x" using pos bitlen_eq_zero_iff [of x] bitlen_nonneg [of x] by linarith
  have "(2::int) ^ nat (bitlen x - 1) < 2 ^ Suc n" using bb a by linarith
  then have 1: "nat (bitlen x - 1) < Suc n"
    using power_less_imp_less_exp [of "2::int" "nat (bitlen x - 1)" "Suc n"] by simp
  have "(2::int) ^ n < 2 ^ nat (bitlen x)" using bb a by linarith
  then have 2: "n < nat (bitlen x)"
    using power_less_imp_less_exp [of "2::int" n "nat (bitlen x)"] by simp
  show ?thesis using 1 2 b1 by linarith
qed

text \<open>
  Two roundings: \<open>2 ^ 53 + 1\<close> lies halfway between two doubles and goes to the even one,
  \<open>2 ^ 53\<close>; the double nearest to one tenth.
\<close>

lemma fl_2_53_plus_1: "fl 9007199254740993 = 9007199254740992"
proof -
  have "bitlen 9007199254740993 = int 53 + 1"
    by (rule bitlen_eqI) simp_all
  then have "exponent 9007199254740993 = 53"
    by (simp add: exponent_def)
  then show ?thesis
    by (simp add: fl_def round_half_even_def power_int_def Let_def power_one_over)
qed

lemma fl_tenth: "fl (1 / 10) = 3602879701896397 / 36028797018963968"
proof -
  have "bitlen 9 = int 3 + 1"
    by (rule bitlen_eqI) simp_all
  then have "exponent (1 / 10) = - 4"
    by (simp add: exponent_def)
  then show ?thesis
    by (simp add: fl_def round_half_even_def power_int_def Let_def power_one_over)
qed

lemma fl_zero: "fl 0 = 0"
  by (simp add: fl_def)

lemma fl_one: "fl 1 = 1"
  using fl_of_int [of 1] by simp

lemmas fl_simps = fl_zero fl_one fl_numeral fl_neg_numeral add_number_def sub_number_def
  div_number_def

section \<open>Facts about the calendar\<close>

text \<open>The definitions that evaluate a date expression on numerals.\<close>

lemmas calendar_defs =
  new_Date_def setDate_def setMonth_def setHours_def advanceDate_def MakeDay_def MakeDate_def
  MakeTime_def TimeClip_def DayFromYear_def DayFromMonth_def DaysInYear_def msPerDay_def
  YearFromTime_def YearFromDay_def Day_def TimeWithinDay_def MonthFromTime_def DateFromTime_def
  DayWithinYear_def InLeapYear_def WeekDay_def Let_def

lemma DaysInYear_cases: "DaysInYear y = 365 \<or> DaysInYear y = 366"
  by (simp add: DaysInYear_def)

lemma div_bounds:
  fixes a :: int
  assumes "0 < c"
  shows "c * (a div c) \<le> a" and "a < c * (a div c) + c"
proof -
  have "a = c * (a div c) + a mod c" by simp
  moreover have "0 \<le> a mod c" "a mod c < c" using assms by simp_all
  ultimately show "c * (a div c) \<le> a" and "a < c * (a div c) + c" by linarith+
qed

lemma div_step:
  fixes a :: int
  assumes "0 < c"
  shows "(a + 1) div c = a div c + (if (a + 1) mod c = 0 then 1 else 0)"
proof (cases "(a + 1) mod c = 0")
  case True
  then obtain k where k: "a + 1 = c * k" by auto
  have "a = c * (k - 1) + (c - 1)" using k by (simp add: algebra_simps)
  then have "a div c = k - 1" using assms by (intro int_div_pos_eq [of a c "k - 1" "c - 1"]) simp_all
  moreover have "(a + 1) div c = k" using k assms by simp
  ultimately show ?thesis using True by simp
next
  case False
  define r where "r = (a + 1) mod c"
  have "0 \<le> r" "r \<noteq> 0" "r < c" using False assms unfolding r_def by simp_all
  then have r: "0 < r" "r < c" by linarith+
  have "a + 1 = c * ((a + 1) div c) + r" unfolding r_def by simp
  then have "a = c * ((a + 1) div c) + (r - 1)" by simp
  then have "a div c = (a + 1) div c"
    using r by (intro int_div_pos_eq [of a c "(a + 1) div c" "r - 1"]) simp_all
  then show ?thesis using False by simp
qed

lemma DayFromYear_Suc: "DayFromYear (y + 1) = DayFromYear y + DaysInYear y"
proof -
  have m4: "(y - 1968) mod 4 = y mod 4"
    using mod_mult_self2 [of y 4 "- 492"] by simp
  have m100: "(y - 1900) mod 100 = y mod 100"
    using mod_mult_self2 [of y 100 "- 19"] by simp
  have m400: "(y - 1600) mod 400 = y mod 400"
    using mod_mult_self2 [of y 400 "- 4"] by simp
  have a: "(y + 1 - 1969) div 4 = (y - 1969) div 4 + (if y mod 4 = 0 then 1 else 0)"
    using div_step [of 4 "y - 1969"] m4 by simp
  have b: "(y + 1 - 1901) div 100 = (y - 1901) div 100 + (if y mod 100 = 0 then 1 else 0)"
    using div_step [of 100 "y - 1901"] m100 by simp
  have c: "(y + 1 - 1601) div 400 = (y - 1601) div 400 + (if y mod 400 = 0 then 1 else 0)"
    using div_step [of 400 "y - 1601"] m400 by simp
  have d1: "y mod 100 = 0 \<Longrightarrow> y mod 4 = 0"
    using mod_mod_cancel [of 4 100 y] by simp
  have d2: "y mod 400 = 0 \<Longrightarrow> y mod 100 = 0"
    using mod_mod_cancel [of 100 400 y] by simp
  show ?thesis
    unfolding DayFromYear_def DaysInYear_def a b c using d1 d2 by auto
qed

lemma DayFromYear_less: "y < y' \<Longrightarrow> DayFromYear y < DayFromYear y'"
proof (induction y' rule: int_gr_induct)
  case base
  then show ?case using DayFromYear_Suc [of y] DaysInYear_cases [of y] by auto
next
  case (step i)
  then show ?case using DayFromYear_Suc [of i] DaysInYear_cases [of i] by auto
qed

lemma DayFromYear_mono: "y \<le> y' \<Longrightarrow> DayFromYear y \<le> DayFromYear y'"
  using DayFromYear_less [of y y'] by (cases "y = y'") auto

text \<open>
  The year computed by \<open>YearFromDay\<close> is the one of the standard: its first day is not
  after the given day, and the first day of the next year is.
\<close>

lemma YearFromDay_bounds:
  "DayFromYear (YearFromDay d) \<le> d \<and> d < DayFromYear (YearFromDay d + 1)"
proof -
  define x where "x = (400 * d) div 146097"
  have x1: "146097 * x \<le> 400 * d" and x2: "400 * d < 146097 * x + 146097"
    unfolding x_def using div_bounds [of 146097 "400 * d"] by simp_all
  have lo: "DayFromYear (1970 + x - 1) \<le> d"
  proof -
    define a where "a = x div 4"
    define b where "b = (68 + x) div 100"
    define c where "c = (368 + x) div 400"
    have e: "DayFromYear (1970 + x - 1) = 365 * x - 365 + a - b + c"
      by (simp add: DayFromYear_def a_def b_def c_def)
    have "4 * a \<le> x" "68 + x < 100 * b + 100" "400 * c \<le> 368 + x"
      unfolding a_def b_def c_def
      using div_bounds [of 4 x] div_bounds [of 100 "68 + x"] div_bounds [of 400 "368 + x"]
      by simp_all
    then show ?thesis unfolding e using x1 by linarith
  qed
  have hi: "d < DayFromYear (1970 + x + 2)"
  proof -
    define a where "a = (3 + x) div 4"
    define b where "b = (71 + x) div 100"
    define c where "c = (371 + x) div 400"
    have e: "DayFromYear (1970 + x + 2) = 365 * x + 730 + a - b + c"
      by (simp add: DayFromYear_def a_def b_def c_def)
    have "3 + x < 4 * a + 4" "100 * b \<le> 71 + x" "371 + x < 400 * c + 400"
      unfolding a_def b_def c_def
      using div_bounds [of 4 "3 + x"] div_bounds [of 100 "71 + x"] div_bounds [of 400 "371 + x"]
      by simp_all
    then show ?thesis unfolding e using x2 by linarith
  qed
  show ?thesis
  proof (cases "d < DayFromYear (1970 + x)")
    case True
    then show ?thesis
      using lo by (simp add: YearFromDay_def x_def [symmetric] Let_def)
  next
    case False
    then show ?thesis
      using hi by (simp add: YearFromDay_def x_def [symmetric] Let_def add.commute add.left_commute)
  qed
qed

lemma YearFromDay_unique:
  assumes "DayFromYear y \<le> d" and "d < DayFromYear (y + 1)"
  shows "YearFromDay d = y"
proof (rule ccontr)
  assume ne: "YearFromDay d \<noteq> y"
  note b = YearFromDay_bounds [of d]
  show False
  proof (cases "YearFromDay d < y")
    case True
    then have "DayFromYear (YearFromDay d + 1) \<le> DayFromYear y"
      by (intro DayFromYear_mono) simp
    with b assms show False by linarith
  next
    case False
    with ne have "DayFromYear (y + 1) \<le> DayFromYear (YearFromDay d)"
      by (intro DayFromYear_mono) simp
    with b assms show False by linarith
  qed
qed

lemma DayFromYear_range:
  assumes "- 271820 \<le> y" "y \<le> 275759"
  shows "- 99999746 \<le> DayFromYear y" and "DayFromYear y \<le> 99999381"
proof -
  define a where "a = (y - 1969) div 4"
  define b where "b = (y - 1901) div 100"
  define c where "c = (y - 1601) div 400"
  have e: "DayFromYear y = 365 * y - 719050 + a - b + c"
    by (simp add: DayFromYear_def a_def b_def c_def)
  have bounds: "4 * a \<le> y - 1969" "y - 1969 < 4 * a + 4"
    "100 * b \<le> y - 1901" "y - 1901 < 100 * b + 100"
    "400 * c \<le> y - 1601" "y - 1601 < 400 * c + 400"
    unfolding a_def b_def c_def
    using div_bounds [of 4 "y - 1969"] div_bounds [of 100 "y - 1901"]
      div_bounds [of 400 "y - 1601"]
    by simp_all
  show "- 99999746 \<le> DayFromYear y" unfolding e using bounds assms by linarith
  show "DayFromYear y \<le> 99999381" unfolding e using bounds assms by linarith
qed

lemma DayWithinYear_bounds:
  "0 \<le> DayWithinYear t \<and> DayWithinYear t < DaysInYear (YearFromTime t)"
  using YearFromDay_bounds [of "Day t"] DayFromYear_Suc [of "YearFromDay (Day t)"]
  by (simp add: DayWithinYear_def YearFromTime_def)

lemma MonthFromTime_bounds: "0 \<le> MonthFromTime t \<and> MonthFromTime t \<le> 11"
  by (simp add: MonthFromTime_def Let_def)

lemma month_cases:
  fixes m :: int
  assumes "0 \<le> m" "m \<le> 11"
  shows "m = 0 \<or> m = 1 \<or> m = 2 \<or> m = 3 \<or> m = 4 \<or> m = 5 \<or> m = 6 \<or> m = 7 \<or> m = 8
           \<or> m = 9 \<or> m = 10 \<or> m = 11"
  using assms by presburger

lemma DateFromTime_ge_1: "1 \<le> DateFromTime t"
proof -
  have "DayFromMonth (MonthFromTime t) (InLeapYear t) \<le> DayWithinYear t"
    unfolding MonthFromTime_def Let_def DayFromMonth_def
    using DayWithinYear_bounds [of t] by simp
  then show ?thesis by (simp add: DateFromTime_def)
qed

text \<open>
  Making a day from the year, month and date of a time value gives back its day; hence
  \<^verbatim>\<open>setDate(getDate() + k)\<close> moves a date by \<open>k\<close> days.
\<close>

lemma MakeDay_current:
  "MakeDay (YearFromTime t) (MonthFromTime t) (DateFromTime t + k) = Day t + k"
proof -
  have m: "MonthFromTime t div 12 = 0" "MonthFromTime t mod 12 = MonthFromTime t"
    using MonthFromTime_bounds [of t] by simp_all
  show ?thesis
    by (simp add: MakeDay_def m DateFromTime_def InLeapYear_def DayWithinYear_def)
qed

lemma MakeDate_Day: "MakeDate (Day t + k) (TimeWithinDay t) = t + k * msPerDay"
  by (simp add: MakeDate_def Day_def TimeWithinDay_def algebra_simps)

lemma TimeClip_Some: "TimeClip x = Some y \<Longrightarrow> y = x \<and> \<bar>x\<bar> \<le> 8640000000000000"
  by (simp add: TimeClip_def split: if_splits)

lemma Day_plus: "Day (t + k * msPerDay) = Day t + k"
  by (simp add: Day_def msPerDay_def)

lemma TimeWithinDay_plus: "TimeWithinDay (t + k * msPerDay) = TimeWithinDay t"
  by (simp add: TimeWithinDay_def msPerDay_def)

lemma setDate_plus: "setDate (Some t) (DateFromTime t + k) = TimeClip (t + k * msPerDay)"
  by (simp add: setDate_def MakeDay_current MakeDate_Day)

lemma DayFromMonth_step:
  assumes "0 \<le> m" "m < 11" "l = 0 \<or> l = 1"
  shows "DayFromMonth m l + 28 \<le> DayFromMonth (m + 1) l"
    and "DayFromMonth (m + 1) l \<le> DayFromMonth m l + 31"
proof -
  have "m = 0 \<or> m = 1 \<or> m = 2 \<or> m = 3 \<or> m = 4 \<or> m = 5 \<or> m = 6 \<or> m = 7 \<or> m = 8
          \<or> m = 9 \<or> m = 10"
    using month_cases [of m] assms(1,2) by simp
  then show "DayFromMonth m l + 28 \<le> DayFromMonth (m + 1) l"
    and "DayFromMonth (m + 1) l \<le> DayFromMonth m l + 31"
    using assms(3) by (auto simp: DayFromMonth_def)
qed

lemma MakeDay_next_month:
  "Day t + 28 \<le> MakeDay (YearFromTime t) (MonthFromTime t + 1) (DateFromTime t) \<and>
   MakeDay (YearFromTime t) (MonthFromTime t + 1) (DateFromTime t) \<le> Day t + 31"
proof -
  define y where "y = YearFromTime t"
  define m where "m = MonthFromTime t"
  define l :: int where "l = (if DaysInYear y = 366 then 1 else 0)"
  have mb: "0 \<le> m" "m \<le> 11" using MonthFromTime_bounds [of t] by (simp_all add: m_def)
  have l: "l = 0 \<or> l = 1" by (simp add: l_def)
  have cur: "Day t = DayFromYear y + DayFromMonth m l + DateFromTime t - 1"
    using MakeDay_current [of t 0] mb
    by (simp add: MakeDay_def Let_def y_def m_def l_def)
  show ?thesis
  proof (cases "m = 11")
    case True
    have "MakeDay y (m + 1) (DateFromTime t) = DayFromYear (y + 1) + DateFromTime t - 1"
      using True by (simp add: MakeDay_def DayFromMonth_def)
    moreover have "DayFromYear (y + 1) = DayFromYear y + 365 + l"
      using DayFromYear_Suc [of y] DaysInYear_cases [of y] by (auto simp: l_def)
    moreover have "DayFromMonth m l = 334 + l" using True by (simp add: DayFromMonth_def)
    ultimately show ?thesis using cur unfolding y_def [symmetric] m_def [symmetric] by simp
  next
    case False
    then have m10: "m < 11" using mb by simp
    then have "(m + 1) div 12 = 0" "(m + 1) mod 12 = m + 1" using mb by simp_all
    then have "MakeDay y (m + 1) (DateFromTime t)
                 = DayFromYear y + DayFromMonth (m + 1) l + DateFromTime t - 1"
      by (simp add: MakeDay_def l_def)
    then show ?thesis
      using cur DayFromMonth_step [OF mb(1) m10 l]
      unfolding y_def [symmetric] m_def [symmetric] by simp
  qed
qed

text \<open>
  \<^verbatim>\<open>setMonth(getMonth() + 1)\<close> moves a date forward by 28 to 31 days.
\<close>

lemma setMonth_next:
  "\<exists>k. 28 \<le> k \<and> k \<le> 31 \<and>
       setMonth (Some t) (MonthFromTime t + 1) = TimeClip (t + k * msPerDay)"
proof -
  define k where "k = MakeDay (YearFromTime t) (MonthFromTime t + 1) (DateFromTime t) - Day t"
  have "28 \<le> k \<and> k \<le> 31" using MakeDay_next_month [of t] by (simp add: k_def)
  moreover have "setMonth (Some t) (MonthFromTime t + 1) = TimeClip (t + k * msPerDay)"
    using MakeDate_Day [of t k] by (simp add: setMonth_def k_def)
  ultimately show ?thesis by blast
qed

text \<open>
  The year, month and date of a day made from a year, a month from 0 to 11 and a date
  from 1 to 28 are that year, month and date.
\<close>

lemma civil_of_MakeDay:
  fixes y m dt tm :: int
  assumes m: "0 \<le> m" "m \<le> 11" and dt: "1 \<le> dt" "dt \<le> 28"
    and tm: "0 \<le> tm" "tm < msPerDay"
  defines "t \<equiv> MakeDate (MakeDay y m dt) tm"
  shows "YearFromTime t = y" and "MonthFromTime t = m" and "DateFromTime t = dt"
proof -
  define l :: int where "l = (if DaysInYear y = 366 then 1 else 0)"
  have l: "l = 0 \<or> l = 1" by (simp add: l_def)
  have mm: "m div 12 = 0" "m mod 12 = m" using m by simp_all
  have day: "Day t = DayFromYear y + DayFromMonth m l + dt - 1"
    using tm by (simp add: t_def MakeDate_def Day_def MakeDay_def mm l_def msPerDay_def)
  have mc: "m = 0 \<or> m = 1 \<or> m = 2 \<or> m = 3 \<or> m = 4 \<or> m = 5 \<or> m = 6 \<or> m = 7 \<or> m = 8
              \<or> m = 9 \<or> m = 10 \<or> m = 11"
    using m by (rule month_cases)
  have l01: "0 \<le> l" "l \<le> 1" by (simp_all add: l_def)
  have off: "0 \<le> DayFromMonth m l + dt - 1" "DayFromMonth m l + dt - 1 < 365 + l"
    using l01 dt mc by (elim disjE; simp add: DayFromMonth_def)+
  have "DayFromYear (y + 1) = DayFromYear y + 365 + l"
    using DayFromYear_Suc [of y] DaysInYear_cases [of y] by (auto simp: l_def)
  then show y: "YearFromTime t = y"
    unfolding YearFromTime_def using off day by (intro YearFromDay_unique) simp_all
  have leap: "InLeapYear t = l" by (simp add: InLeapYear_def y l_def)
  have dwy: "DayWithinYear t = DayFromMonth m l + dt - 1"
    by (simp add: DayWithinYear_def y day)
  show mo: "MonthFromTime t = m"
    unfolding MonthFromTime_def dwy leap Let_def
    using l01 dt mc by (elim disjE; simp add: DayFromMonth_def)
  show "DateFromTime t = dt"
    by (simp add: DateFromTime_def mo leap dwy)
qed

lemma new_Date_tenth:
  assumes m: "0 \<le> m" "m \<le> 11" and y: "y < 0 \<or> 99 < y" "- 271820 \<le> y" "y \<le> 275759"
  shows "\<exists>t. new_Date y m 10 = Some t \<and> YearFromTime t = y \<and> MonthFromTime t = m \<and>
             DateFromTime t = 10 \<and> TimeWithinDay t = 0"
proof -
  define t where "t = MakeDate (MakeDay y m 10) 0"
  define l :: int where "l = (if DaysInYear y = 366 then 1 else 0)"
  have l01: "0 \<le> l" "l \<le> 1" by (simp_all add: l_def)
  have mm: "m div 12 = 0" "m mod 12 = m" using m by simp_all
  have md: "MakeDay y m 10 = DayFromYear y + DayFromMonth m l + 9"
    by (simp add: MakeDay_def mm l_def)
  have dm: "0 \<le> DayFromMonth m l" "DayFromMonth m l \<le> 335"
    using l01 month_cases [OF m] by (elim disjE; simp add: DayFromMonth_def)+
  have "- 99999746 \<le> MakeDay y m 10" "MakeDay y m 10 \<le> 99999725"
    using DayFromYear_range [OF y(2,3)] dm unfolding md by linarith+
  then have "\<bar>t\<bar> \<le> 8640000000000000"
    by (simp add: t_def MakeDate_def msPerDay_def)
  then have nd: "new_Date y m 10 = Some t"
    using y(1) by (auto simp: new_Date_def t_def MakeTime_def TimeClip_def)
  have civ: "YearFromTime t = y" "MonthFromTime t = m" "DateFromTime t = 10"
    unfolding t_def using civil_of_MakeDay [OF m, of 10 0 y] by (simp_all add: msPerDay_def)
  have "TimeWithinDay t = 0"
    by (simp add: t_def MakeDate_def TimeWithinDay_def)
  then show ?thesis using nd civ by simp
qed

text \<open>Every step of the loop moves the current date forward, or leaves the valid range.\<close>

lemma advanceDate_cases:
  "\<exists>k. 7 \<le> k \<and> k \<le> 31 \<and> advanceDate f t = TimeClip (t + k * msPerDay)"
proof (cases "f = weekly")
  case True
  then show ?thesis
    using setDate_plus [of t 7] by (auto simp: advanceDate_def)
next
  case False
  obtain k where "28 \<le> k" "k \<le> 31"
      "setMonth (Some t) (MonthFromTime t + 1) = TimeClip (t + k * msPerDay)"
    using setMonth_next [of t] by blast
  then have "7 \<le> k \<and> k \<le> 31 \<and> advanceDate f t = TimeClip (t + k * msPerDay)"
    using False by (simp add: advanceDate_def)
  then show ?thesis by blast
qed

lemma advanceDate_greater: "advanceDate f t = Some t' \<Longrightarrow> t + 7 * msPerDay \<le> t'"
proof -
  assume a: "advanceDate f t = Some t'"
  obtain k where k: "7 \<le> k" "advanceDate f t = TimeClip (t + k * msPerDay)"
    using advanceDate_cases [of f t] by blast
  have "t' = t + k * msPerDay"
    using a k(2) by (simp add: TimeClip_def split: if_splits)
  then show ?thesis using k(1) by (simp add: msPerDay_def)
qed

lemma advanceDate_weekly: "advanceDate weekly t = TimeClip (t + 7 * msPerDay)"
  using setDate_plus [of t 7] by (simp add: advanceDate_def)

text \<open>
  From a day of the month up to 28, the monthly step leads to the same day and time of
  the following month.
\<close>

lemma advanceDate_monthly_same_day:
  assumes "DateFromTime t \<le> 28" and "advanceDate monthly t = Some t'"
  shows "DateFromTime t' = DateFromTime t \<and>
         MonthFromTime t' = followingMonth (MonthFromTime t) \<and>
         YearFromTime t' = followingYear (MonthFromTime t) (YearFromTime t) \<and>
         TimeWithinDay t' = TimeWithinDay t"
proof -
  define y where "y = YearFromTime t"
  define m where "m = MonthFromTime t"
  define dt where "dt = DateFromTime t"
  define tm where "tm = TimeWithinDay t"
  have m: "0 \<le> m" "m \<le> 11" using MonthFromTime_bounds [of t] by (simp_all add: m_def)
  have dt: "1 \<le> dt" "dt \<le> 28" using DateFromTime_ge_1 [of t] assms(1) by (simp_all add: dt_def)
  have tm: "0 \<le> tm" "tm < msPerDay" by (simp_all add: tm_def TimeWithinDay_def msPerDay_def)
  have fm: "0 \<le> followingMonth m" "followingMonth m \<le> 11"
    using m by (simp_all add: followingMonth_def)
  have "MakeDay y (m + 1) dt = MakeDay (followingYear m y) (followingMonth m) dt"
  proof (cases "m = 11")
    case True
    then show ?thesis by (simp add: MakeDay_def followingYear_def followingMonth_def)
  next
    case False
    then show ?thesis by (simp add: followingYear_def followingMonth_def)
  qed
  moreover have "TimeClip (MakeDate (MakeDay y (m + 1) dt) tm) = Some t'"
    using assms(2) by (simp add: advanceDate_def setMonth_def y_def m_def dt_def tm_def)
  ultimately have t': "t' = MakeDate (MakeDay (followingYear m y) (followingMonth m) dt) tm"
    using TimeClip_Some by metis
  have twd: "TimeWithinDay t' = tm"
    using tm by (simp add: t' MakeDate_def TimeWithinDay_def msPerDay_def)
  note c = civil_of_MakeDay [OF fm dt tm, of "followingYear m y", folded t']
  show ?thesis
    using c twd by (simp add: y_def m_def dt_def tm_def)
qed

section \<open>Expansion of a recurring debt\<close>

text \<open>The distance in milliseconds from the current date to the end date, plus one.\<close>

definition remaining_ms :: "Date \<Rightarrow> Date \<Rightarrow> nat" where
  "remaining_ms cur e =
     (case cur of
        None \<Rightarrow> 0
      | Some c \<Rightarrow> (case e of None \<Rightarrow> 0 | Some e' \<Rightarrow> nat (e' - c + 1)))"

lemma remaining_ms_advanceDate:
  assumes "date_le (Some t) endDate"
  shows "remaining_ms (advanceDate f t) endDate < remaining_ms (Some t) endDate"
proof -
  obtain e where e: "endDate = Some e" "t \<le> e"
    using assms by (cases endDate) (simp_all add: date_le_def)
  show ?thesis
  proof (cases "advanceDate f t")
    case None
    then show ?thesis using e by (simp add: remaining_ms_def)
  next
    case (Some t')
    then show ?thesis
      using advanceDate_greater [OF Some] e by (simp add: remaining_ms_def msPerDay_def)
  qed
qed

text \<open>
  The loop \<^verbatim>\<open>while (currentDate <= endDate)\<close>. The clock is read in every iteration:
  \<open>now_ms count'\<close> is \<^verbatim>\<open>Date.now()\<close> and \<open>now count'\<close> is \<^verbatim>\<open>new Date()\<close> in the iteration
  numbered \<open>count\<close>. The due date of an instalment is a copy of the current date, so the
  later mutation of \<^verbatim>\<open>currentDate\<close> does not touch it.
\<close>

function recurringDebts ::
    "Frequency \<Rightarrow> string \<Rightarrow> string \<Rightarrow> real \<Rightarrow> (int \<Rightarrow> int) \<Rightarrow> (int \<Rightarrow> Date)
       \<Rightarrow> Date \<Rightarrow> Date \<Rightarrow> int \<Rightarrow> Debt list" where
  "recurringDebts recurringFrequency newName newSource newTotalAmount now_ms now currentDate endDate count' =
     (if date_le currentDate endDate then
        (case currentDate of
           None \<Rightarrow> []
         | Some t \<Rightarrow>
             \<lparr>id_debt = toString (now_ms count') @ ''-'' @ toString count',
              name = newName @ '' ''
                       @ debtNameSuffix recurringFrequency (MonthFromTime t) (YearFromTime t) count',
              source = newSource,
              totalAmount = newTotalAmount,
              amountPaid = 0,
              dueDate = Some t,
              createdAt = now count',
              targetMonth = Some (MonthFromTime t),
              targetYear = Some (YearFromTime t),
              transactions = Some []\<rparr>
             # recurringDebts recurringFrequency newName newSource newTotalAmount now_ms now
                 (advanceDate recurringFrequency t) endDate (count' + 1))
      else [])"
  by pat_completeness auto

termination
  by (relation "measure (\<lambda>(f, n, s, a, c1, c2, cur, e, k). remaining_ms cur e)")
     (simp_all add: remaining_ms_advanceDate)

declare recurringDebts.simps [simp del]

text \<open>
  The loop body: nothing is emitted when the current date is after the end date or a date
  is invalid; otherwise one instalment is emitted for the current date, with a paid amount
  of 0 and no transactions, and the loop goes on from the advanced date.
\<close>

lemma recurringDebts_stop:
  "\<not> date_le currentDate endDate \<Longrightarrow> recurringDebts f n s a c1 c2 currentDate endDate k = []"
  by (subst recurringDebts.simps) simp

lemma recurringDebts_step:
  "date_le (Some t) endDate \<Longrightarrow>
   recurringDebts f n s a c1 c2 (Some t) endDate k =
     \<lparr>id_debt = toString (c1 k) @ ''-'' @ toString k,
      name = n @ '' '' @ debtNameSuffix f (MonthFromTime t) (YearFromTime t) k,
      source = s, totalAmount = a, amountPaid = 0, dueDate = Some t, createdAt = c2 k,
      targetMonth = Some (MonthFromTime t), targetYear = Some (YearFromTime t),
      transactions = Some []\<rparr>
     # recurringDebts f n s a c1 c2 (advanceDate f t) endDate (k + 1)"
  by (subst recurringDebts.simps) simp

lemma length_recurringDebts:
  "length (recurringDebts f n s a c1 c2 currentDate endDate k)
     \<le> (case currentDate of
           None \<Rightarrow> 0
         | Some c \<Rightarrow> (case endDate of
                        None \<Rightarrow> 0
                      | Some e \<Rightarrow> if c \<le> e then nat ((e - c) div (7 * msPerDay)) + 1 else 0))"
proof (induction f n s a c1 c2 currentDate endDate k rule: recurringDebts.induct)
  case (1 f n s a c1 c2 currentDate endDate k)
  show ?case
  proof (cases "date_le currentDate endDate")
    case False
    then show ?thesis by (simp add: recurringDebts_stop)
  next
    case True
    then obtain t e where te: "currentDate = Some t" "endDate = Some e" "t \<le> e"
      by (auto simp: date_le_def split: option.splits)
    have len: "length (recurringDebts f n s a c1 c2 currentDate endDate k)
                 = 1 + length (recurringDebts f n s a c1 c2 (advanceDate f t) endDate (k + 1))"
      using True te by (simp add: recurringDebts_step)
    have ih: "length (recurringDebts f n s a c1 c2 (advanceDate f t) endDate (k + 1))
                \<le> (case advanceDate f t of
                      None \<Rightarrow> 0
                    | Some c \<Rightarrow> if c \<le> e then nat ((e - c) div (7 * msPerDay)) + 1 else 0)"
    proof (cases "advanceDate f t")
      case None
      then show ?thesis using "1.IH" [OF True te(1)] by (simp add: te(2))
    next
      case (Some c)
      then show ?thesis using "1.IH" [OF True te(1)] by (simp add: te(2))
    qed
    have "(case advanceDate f t of
             None \<Rightarrow> 0
           | Some c \<Rightarrow> if c \<le> e then nat ((e - c) div (7 * msPerDay)) + 1 else 0)
          \<le> nat ((e - t) div (7 * msPerDay))"
    proof (cases "advanceDate f t")
      case None
      then show ?thesis by simp
    next
      case (Some t')
      have g: "t + 7 * msPerDay \<le> t'" using advanceDate_greater [OF Some] .
      show ?thesis
      proof (cases "t' \<le> e")
        case False
        then show ?thesis using Some by simp
      next
        case le: True
        have "(e - t') div (7 * msPerDay) \<le> (e - t - 7 * msPerDay) div (7 * msPerDay)"
          using g by (intro zdiv_mono1) (simp_all add: msPerDay_def)
        also have "\<dots> = (e - t) div (7 * msPerDay) - 1"
          by (simp add: msPerDay_def)
        finally have "(e - t') div (7 * msPerDay) + 1 \<le> (e - t) div (7 * msPerDay)" by simp
        moreover have "0 \<le> (e - t') div (7 * msPerDay)"
          using le by (simp add: msPerDay_def pos_imp_zdiv_nonneg_iff)
        ultimately show ?thesis using Some le by simp
      qed
    qed
    then show ?thesis using len ih te by simp
  qed
qed

section \<open>The ledger operations\<close>

lemma length_handleAddPayment: "length (handleAddPayment debts i a m n) = length debts"
  by (simp add: handleAddPayment_def)

lemma length_handleWithdrawPayment: "length (handleWithdrawPayment debts i a r m n) = length debts"
  by (simp add: handleWithdrawPayment_def)

lemma nth_handleAddPayment:
  "k < length debts \<Longrightarrow>
   handleAddPayment debts i a m n ! k =
     (if id_debt (debts ! k) = i
      then (debts ! k)\<lparr>amountPaid := add_number (amountPaid (debts ! k)) a,
             transactions := Some (transactions_or_empty (debts ! k) @ [paymentRecord a m n])\<rparr>
      else debts ! k)"
  by (simp add: handleAddPayment_def paymentRecord_def)

lemma nth_handleWithdrawPayment:
  "k < length debts \<Longrightarrow>
   handleWithdrawPayment debts i a r m n ! k =
     (if id_debt (debts ! k) = i
      then (debts ! k)\<lparr>amountPaid := max 0 (sub_number (amountPaid (debts ! k)) a),
             transactions := Some (transactions_or_empty (debts ! k) @ [withdrawalRecord a r m n])\<rparr>
      else debts ! k)"
  by (simp add: handleWithdrawPayment_def withdrawalRecord_def)

text \<open>
  A reason of letters is not blank; a reason that is a no-break space (U+00A0) is, and
  \<^verbatim>\<open>confirmWithdraw\<close> then alerts and changes nothing.
\<close>

lemma trim_rent: "trim ''rent'' = ''rent''"
  by (simp add: trim_def trimStart_def trimEnd_def strip.simps white_space_def)

lemma trim_no_break_space: "trim [CHR 0xC2, CHR 0xA0] = []"
  by (simp add: trim_def trimStart_def trimEnd_def strip.simps white_space_def)

lemma confirmWithdraw_blank_reason:
  "confirmWithdraw debt (st\<lparr>withdrawReason := [CHR 0xC2, CHR 0xA0]\<rparr>) debts now_ms now
     = ((st\<lparr>withdrawReason := [CHR 0xC2, CHR 0xA0]\<rparr>, debts), Some WithdrawReasonRequired)"
  by (simp add: confirmWithdraw_def trim_no_break_space)

text \<open>
  The component refuses to open the reason panel for an amount above the paid amount.
\<close>

lemma initiateWithdraw_rejects:
  "0 < inputValue st \<Longrightarrow> inputValue st > amountPaid debt \<Longrightarrow>
   initiateWithdraw debt st = (st, Some CannotWithdrawMoreThanPaid)"
  by (simp add: initiateWithdraw_def)

text \<open>
  Claim C1. The claim does not hold of the code. The check of the amount against the paid
  amount is made once, in \<^verbatim>\<open>initiateWithdraw\<close>; the amount can still be edited while the
  reason panel is open, and neither \<^verbatim>\<open>confirmWithdraw\<close> nor \<^verbatim>\<open>handleWithdrawPayment\<close>
  checks it again. For a debt with a paid amount of 100: the user enters 100 and opens the
  panel, changes the amount to 500, enters a reason and confirms. The withdrawal of 500 is
  not rejected: the paid amount becomes 0 and a withdrawal record of 500 is appended.
\<close>

theorem withdrawal_above_paid_goes_through:
  "amountPaid exampleDebt = 100 \<and>
   initiateWithdraw exampleDebt (setInputValue 100 initialDebtItemState)
     = (initialDebtItemState\<lparr>inputValue := 100, showWithdrawReason := True\<rparr>, None) \<and>
   confirmWithdraw exampleDebt
       (setWithdrawReason ''rent''
          (setInputValue 500
             (fst (initiateWithdraw exampleDebt (setInputValue 100 initialDebtItemState)))))
       [exampleDebt] 1700000000002 (Some 1700000000002)
     = ((initialDebtItemState,
         [exampleDebt\<lparr>amountPaid := 0,
            transactions :=
              Some [withdrawalRecord 500 ''rent'' 1700000000002 (Some 1700000000002)]\<rparr>]),
        None)"
  by (simp add: exampleDebt_def initialDebtItemState_def initiateWithdraw_def setInputValue_def
        setWithdrawReason_def confirmWithdraw_def handleWithdrawPayment_def withdrawalRecord_def
        transactions_or_empty_def trim_rent fl_simps)

text \<open>
  Claim C3, as amended. For a debt of the list with the target id: if its paid amount
  \<open>p\<close> is not negative and the amount \<open>a\<close> is positive, and the sum \<open>p + a\<close> is computed
  without rounding and below \<open>2 ^ 1024\<close> (\<open>p\<close> and \<open>p + a\<close> are doubles), then a payment of \<open>a\<close>
  followed by a withdrawal of \<open>a\<close> gives back the paid amount \<open>p\<close>. For every paid amount
  and every amount, the transactions of the debt are the old ones followed by the
  payment record and the withdrawal record: two entries more.
\<close>

theorem payment_then_withdrawal_restores:
  assumes "k < length debts" and "id_debt (debts ! k) = i"
  shows "(0 \<le> amountPaid (debts ! k) \<and> 0 < a \<and>
          fl (amountPaid (debts ! k)) = amountPaid (debts ! k) \<and>
          fl (amountPaid (debts ! k) + a) = amountPaid (debts ! k) + a \<and>
          amountPaid (debts ! k) + a < 2 ^ 1024 \<longrightarrow>
          amountPaid (handleWithdrawPayment (handleAddPayment debts i a m1 n1) i a r m2 n2 ! k)
            = amountPaid (debts ! k)) \<and>
         transactions_or_empty
             (handleWithdrawPayment (handleAddPayment debts i a m1 n1) i a r m2 n2 ! k)
           = transactions_or_empty (debts ! k)
               @ [paymentRecord a m1 n1, withdrawalRecord a r m2 n2] \<and>
         length (transactions_or_empty
             (handleWithdrawPayment (handleAddPayment debts i a m1 n1) i a r m2 n2 ! k))
           = length (transactions_or_empty (debts ! k)) + 2"
  using assms
  by (simp add: nth_handleWithdrawPayment nth_handleAddPayment length_handleAddPayment
        transactions_or_empty_def add_number_def sub_number_def)

text \<open>
  Whole amounts whose sum is at most \<open>2 ^ 53\<close> meet the condition on the sum.
\<close>

lemma whole_amounts_exact:
  assumes "0 \<le> p" "0 < a" "p + a \<le> 9007199254740992"
  shows "fl (of_int p) = of_int p \<and> fl (of_int p + of_int a) = of_int p + of_int a \<and>
         (of_int p + of_int a :: real) < 2 ^ 1024"
proof -
  have "fl (of_int (p + a)) = of_int (p + a)" using assms by (intro fl_of_int) simp
  moreover have "fl (of_int p) = of_int p" using assms by (intro fl_of_int) simp
  moreover have "(of_int (p + a) :: real) \<le> of_int 9007199254740992"
    using assms(3) by (rule of_int_le_iff [THEN iffD2])
  moreover have "(9007199254740992 :: real) < 2 ^ 1024" by simp
  ultimately show ?thesis by simp
qed

theorem payment_then_withdrawal_restores_witness:
  "0 < length [exampleDebt] \<and> id_debt ([exampleDebt] ! 0) = ''1700000000000'' \<and>
   0 \<le> amountPaid ([exampleDebt] ! 0) \<and> (0::real) < 250 \<and>
   fl (amountPaid ([exampleDebt] ! 0)) = amountPaid ([exampleDebt] ! 0) \<and>
   fl (amountPaid ([exampleDebt] ! 0) + 250) = amountPaid ([exampleDebt] ! 0) + 250 \<and>
   amountPaid ([exampleDebt] ! 0) + 250 < 2 ^ 1024 \<and>
   amountPaid (handleWithdrawPayment
       (handleAddPayment [exampleDebt] ''1700000000000'' 250 1 (Some 1))
       ''1700000000000'' 250 ''rent'' 2 (Some 2) ! 0) = 100 \<and>
   length (transactions_or_empty (handleWithdrawPayment
       (handleAddPayment [exampleDebt] ''1700000000000'' 250 1 (Some 1))
       ''1700000000000'' 250 ''rent'' 2 (Some 2) ! 0)) = 2"
proof -
  have l: "0 < length [exampleDebt]" by simp
  have i: "id_debt ([exampleDebt] ! 0) = ''1700000000000''" by (simp add: exampleDebt_def)
  have p: "amountPaid ([exampleDebt] ! 0) = 100" by (simp add: exampleDebt_def)
  have h: "0 \<le> amountPaid ([exampleDebt] ! 0) \<and> (0::real) < 250 \<and>
           fl (amountPaid ([exampleDebt] ! 0)) = amountPaid ([exampleDebt] ! 0) \<and>
           fl (amountPaid ([exampleDebt] ! 0) + 250) = amountPaid ([exampleDebt] ! 0) + 250 \<and>
           amountPaid ([exampleDebt] ! 0) + 250 < 2 ^ 1024"
    unfolding p by (simp add: fl_simps)
  note t = payment_then_withdrawal_restores
    [OF l i, where a = 250 and ?m1.0 = 1 and ?n1.0 = "Some 1" and r = "''rent''"
       and ?m2.0 = 2 and ?n2.0 = "Some 2"]
  have "amountPaid (handleWithdrawPayment
       (handleAddPayment [exampleDebt] ''1700000000000'' 250 1 (Some 1))
       ''1700000000000'' 250 ''rent'' 2 (Some 2) ! 0) = 100"
    using t [THEN conjunct1, THEN mp, OF h] p by simp
  moreover have "length (transactions_or_empty (handleWithdrawPayment
       (handleAddPayment [exampleDebt] ''1700000000000'' 250 1 (Some 1))
       ''1700000000000'' 250 ''rent'' 2 (Some 2) ! 0)) = 2"
    using t [THEN conjunct2, THEN conjunct2] by (simp add: exampleDebt_def transactions_or_empty_def)
  ultimately show ?thesis using l i h by simp
qed

text \<open>
  Claim C3 as stated, for every paid amount that is not negative and every positive
  amount, fails, since the sum is rounded. A paid amount of 1004.9999999999999, the
  double that the amount field gives for the input 1.005, and a payment of 100: the sum
  is rounded to 1105, and the withdrawal of 100 leaves 1005. A paid amount of 1 and a
  payment of \<open>2 ^ 53\<close>: the sum is rounded to \<open>2 ^ 53\<close>, and the withdrawal leaves 0.
\<close>

theorem payment_then_withdrawal_rounding_counterexample:
  "fl (8840073487319039 / 8796093022208) = 8840073487319039 / 8796093022208 \<and>
   amountPaid (handleWithdrawPayment
       (handleAddPayment [exampleDebt\<lparr>amountPaid := 8840073487319039 / 8796093022208\<rparr>]
          ''1700000000000'' 100 1 (Some 1))
       ''1700000000000'' 100 ''rent'' 2 (Some 2) ! 0) = 1005 \<and>
   (8840073487319039 / 8796093022208 :: real) < 1005 \<and>
   amountPaid (handleWithdrawPayment
       (handleAddPayment [exampleDebt\<lparr>amountPaid := 1\<rparr>]
          ''1700000000000'' 9007199254740992 1 (Some 1))
       ''1700000000000'' 9007199254740992 ''rent'' 2 (Some 2) ! 0) = 0"
proof -
  have b10: "bitlen 1004 = int 9 + 1" by (rule bitlen_eqI) simp_all
  have b11: "bitlen 1104 = int 10 + 1" by (rule bitlen_eqI) simp_all
  have e1: "exponent (8840073487319039 / 8796093022208) = 9"
    using b10 by (simp add: exponent_def)
  have e2: "exponent (9719682789539839 / 8796093022208) = 10"
    using b11 by (simp add: exponent_def)
  have f1: "fl (8840073487319039 / 8796093022208) = 8840073487319039 / 8796093022208"
    using e1 by (simp add: fl_def round_half_even_def power_int_def Let_def power_one_over)
  have f2: "fl (9719682789539839 / 8796093022208) = 1105"
    using e2 by (simp add: fl_def round_half_even_def power_int_def Let_def power_one_over)
  have s: "(8840073487319039 / 8796093022208 + 100 :: real) = 9719682789539839 / 8796093022208"
    by simp
  have 1: "amountPaid (handleWithdrawPayment
       (handleAddPayment [exampleDebt\<lparr>amountPaid := 8840073487319039 / 8796093022208\<rparr>]
          ''1700000000000'' 100 1 (Some 1))
       ''1700000000000'' 100 ''rent'' 2 (Some 2) ! 0) = 1005"
    by (simp add: handleAddPayment_def handleWithdrawPayment_def exampleDebt_def add_number_def
          sub_number_def s f2 fl_numeral)
  have 2: "amountPaid (handleWithdrawPayment
       (handleAddPayment [exampleDebt\<lparr>amountPaid := 1\<rparr>]
          ''1700000000000'' 9007199254740992 1 (Some 1))
       ''1700000000000'' 9007199254740992 ''rent'' 2 (Some 2) ! 0) = 0"
    by (simp add: handleAddPayment_def handleWithdrawPayment_def exampleDebt_def add_number_def
          sub_number_def fl_2_53_plus_1 fl_zero)
  show ?thesis using f1 1 2 by simp
qed

text \<open>
  Claim C9. If no debt of the list has a negative paid amount, then none has after a
  payment of a positive amount, and none has after a withdrawal of a positive amount,
  whatever the amount: the withdrawal is clamped at 0.
\<close>

theorem amountPaid_never_negative:
  assumes "\<forall>d \<in> set debts. 0 \<le> amountPaid d" and "0 < a"
  shows "(\<forall>d \<in> set (handleAddPayment debts i a m n). 0 \<le> amountPaid d) \<and>
         (\<forall>d \<in> set (handleWithdrawPayment debts i a r m n). 0 \<le> amountPaid d)"
proof -
  have "0 \<le> add_number (amountPaid d) a" if "d \<in> set debts" for d
    unfolding add_number_def using assms that by (intro fl_nonneg) (simp add: add_nonneg_nonneg)
  then show ?thesis
    using assms by (auto simp: handleAddPayment_def handleWithdrawPayment_def)
qed

theorem amountPaid_never_negative_witness:
  "0 \<le> amountPaid exampleDebt \<and> (0::real) < 500 \<and>
   0 \<le> amountPaid (handleAddPayment [exampleDebt] ''1700000000000'' 500 1 (Some 1) ! 0) \<and>
   0 \<le> amountPaid
         (handleWithdrawPayment [exampleDebt] ''1700000000000'' 500 ''rent'' 1 (Some 1) ! 0) \<and>
   map amountPaid (handleWithdrawPayment [exampleDebt] ''1700000000000'' 500 ''rent'' 1 (Some 1))
     = [0]"
proof -
  let ?A = "handleAddPayment [exampleDebt] ''1700000000000'' 500 1 (Some 1)"
  let ?W = "handleWithdrawPayment [exampleDebt] ''1700000000000'' 500 ''rent'' 1 (Some 1)"
  have h: "\<forall>d \<in> set [exampleDebt]. 0 \<le> amountPaid d"
    by (simp add: exampleDebt_def)
  have p: "(0::real) < 500" by simp
  note t = amountPaid_never_negative
    [OF h p, where i = "''1700000000000''" and m = 1 and n = "Some 1" and r = "''rent''"]
  have "?A ! 0 \<in> set ?A" by (rule nth_mem) (simp add: length_handleAddPayment)
  then have a: "0 \<le> amountPaid (?A ! 0)" using t by blast
  have "?W ! 0 \<in> set ?W" by (rule nth_mem) (simp add: length_handleWithdrawPayment)
  then have w: "0 \<le> amountPaid (?W ! 0)" using t by blast
  have m: "map amountPaid ?W = [0]"
    by (simp add: handleWithdrawPayment_def exampleDebt_def fl_simps)
  have "0 \<le> amountPaid exampleDebt" by (simp add: exampleDebt_def)
  then show ?thesis using a w m p by simp
qed

text \<open>
  Claim C10. A payment or a withdrawal keeps the length of the list; a debt whose id is
  not the target id is unchanged; a debt with the target id keeps its id, name, source,
  total amount, due date, creation date, target month and target year, and differs from
  the old debt in the paid amount and the transactions only. If no debt has the target
  id, the list is unchanged.
\<close>

theorem payment_withdrawal_frame:
  "length (handleAddPayment debts i a m n) = length debts \<and>
   length (handleWithdrawPayment debts i a r m n) = length debts \<and>
   (\<forall>k < length debts.
      \<forall>d' \<in> {handleAddPayment debts i a m n ! k, handleWithdrawPayment debts i a r m n ! k}.
        (id_debt (debts ! k) \<noteq> i \<longrightarrow> d' = debts ! k) \<and>
        id_debt d' = id_debt (debts ! k) \<and> name d' = name (debts ! k) \<and>
        source d' = source (debts ! k) \<and> totalAmount d' = totalAmount (debts ! k) \<and>
        dueDate d' = dueDate (debts ! k) \<and> createdAt d' = createdAt (debts ! k) \<and>
        targetMonth d' = targetMonth (debts ! k) \<and> targetYear d' = targetYear (debts ! k) \<and>
        d' = (debts ! k)\<lparr>amountPaid := amountPaid d', transactions := transactions d'\<rparr>) \<and>
   ((\<forall>d \<in> set debts. id_debt d \<noteq> i) \<longrightarrow>
      handleAddPayment debts i a m n = debts \<and> handleWithdrawPayment debts i a r m n = debts)"
proof -
  have "(\<forall>d \<in> set debts. id_debt d \<noteq> i) \<longrightarrow>
      handleAddPayment debts i a m n = debts \<and> handleWithdrawPayment debts i a r m n = debts"
    by (simp add: handleAddPayment_def handleWithdrawPayment_def map_idI)
  then show ?thesis
    by (simp add: nth_handleAddPayment nth_handleWithdrawPayment length_handleAddPayment
          length_handleWithdrawPayment)
qed

theorem payment_withdrawal_frame_witness:
  "handleAddPayment [exampleDebt, otherDebt] ''1700000000000'' 50 1 (Some 1) ! 1 = otherDebt \<and>
   name (handleAddPayment [exampleDebt, otherDebt] ''1700000000000'' 50 1 (Some 1) ! 0) = ''Loan'' \<and>
   totalAmount (handleWithdrawPayment [exampleDebt, otherDebt] ''1700000000000'' 50 ''rent'' 1
       (Some 1) ! 0) = 700 \<and>
   handleWithdrawPayment [exampleDebt, otherDebt] ''none'' 50 ''rent'' 1 (Some 1)
     = [exampleDebt, otherDebt]"
proof -
  let ?ds = "[exampleDebt, otherDebt]"
  note f = payment_withdrawal_frame [of ?ds "''1700000000000''" 50 1 "Some 1" "''rent''"]
  note q = f [THEN conjunct2, THEN conjunct2, THEN conjunct1, rule_format]
  note g = payment_withdrawal_frame [of ?ds "''none''" 50 1 "Some 1" "''rent''"]
  note h = g [THEN conjunct2, THEN conjunct2, THEN conjunct2, THEN mp]
  have ids: "id_debt exampleDebt = ''1700000000000''" "id_debt otherDebt = ''1700000000001''"
    "name exampleDebt = ''Loan''" "totalAmount exampleDebt = 700"
    by (simp_all add: exampleDebt_def otherDebt_def)
  have 1: "handleAddPayment ?ds ''1700000000000'' 50 1 (Some 1) ! 1 = otherDebt"
    using q [of 1 "handleAddPayment ?ds ''1700000000000'' 50 1 (Some 1) ! 1"] ids by simp
  have 2: "name (handleAddPayment ?ds ''1700000000000'' 50 1 (Some 1) ! 0) = ''Loan''"
    using q [of 0 "handleAddPayment ?ds ''1700000000000'' 50 1 (Some 1) ! 0"] ids by simp
  have 3: "totalAmount (handleWithdrawPayment ?ds ''1700000000000'' 50 ''rent'' 1 (Some 1) ! 0)
             = 700"
    using q [of 0 "handleWithdrawPayment ?ds ''1700000000000'' 50 ''rent'' 1 (Some 1) ! 0"] ids
    by simp
  have 4: "handleWithdrawPayment ?ds ''none'' 50 ''rent'' 1 (Some 1) = ?ds"
  proof -
    have "\<forall>d \<in> set ?ds. id_debt d \<noteq> ''none''" by (simp add: ids)
    then show ?thesis by (rule h [THEN conjunct2])
  qed
  show ?thesis using 1 2 3 4 by simp
qed

section \<open>The split into active and completed debts\<close>

lemma activeDebts_completedDebts_foldl:
  "foldl (\<lambda>(activeDebts, completedDebts) debt.
              if amountPaid debt \<ge> totalAmount debt
              then (activeDebts, completedDebts @ [debt])
              else (activeDebts @ [debt], completedDebts))
         (as, cs) debts
   = (as @ filter (\<lambda>d. \<not> amountPaid d \<ge> totalAmount d) debts,
      cs @ filter (\<lambda>d. amountPaid d \<ge> totalAmount d) debts)"
  by (induction debts arbitrary: as cs) simp_all

lemma activeDebts_filter:
  "activeDebts debts = filter (\<lambda>d. \<not> amountPaid d \<ge> totalAmount d) debts"
  by (simp add: activeDebts_def activeDebts_completedDebts_def activeDebts_completedDebts_foldl)

lemma completedDebts_filter:
  "completedDebts debts = filter (\<lambda>d. amountPaid d \<ge> totalAmount d) debts"
  by (simp add: completedDebts_def activeDebts_completedDebts_def activeDebts_completedDebts_foldl)

text \<open>
  Claim C4. The active and the completed debts together are the debts of the input, each
  as often as in the input; a debt of the input is completed exactly when its paid amount
  is at least its total amount, and active exactly when it is not; no debt is in both
  lists; each list is the input restricted to its debts, in the order of the input.
\<close>

theorem partition_exhaustive_disjoint_stable:
  "mset (activeDebts debts) + mset (completedDebts debts) = mset debts \<and>
   (\<forall>d \<in> set debts.
      (d \<in> set (completedDebts debts) \<longleftrightarrow> amountPaid d \<ge> totalAmount d) \<and>
      (d \<in> set (activeDebts debts) \<longleftrightarrow> \<not> amountPaid d \<ge> totalAmount d)) \<and>
   set (activeDebts debts) \<inter> set (completedDebts debts) = {} \<and>
   activeDebts debts = filter (\<lambda>d. \<not> amountPaid d \<ge> totalAmount d) debts \<and>
   completedDebts debts = filter (\<lambda>d. amountPaid d \<ge> totalAmount d) debts \<and>
   subseq (activeDebts debts) debts \<and> subseq (completedDebts debts) debts"
proof -
  have "mset (activeDebts debts) + mset (completedDebts debts) = mset debts"
    by (simp add: activeDebts_filter completedDebts_filter not_le)
  then show ?thesis
    using activeDebts_filter [of debts] completedDebts_filter [of debts]
    by (auto simp del: not_le)
qed

theorem partition_exhaustive_disjoint_stable_witness:
  "activeDebts [exampleDebt, otherDebt, exampleDebt\<lparr>amountPaid := 900\<rparr>] = [exampleDebt] \<and>
   completedDebts [exampleDebt, otherDebt, exampleDebt\<lparr>amountPaid := 900\<rparr>]
     = [otherDebt, exampleDebt\<lparr>amountPaid := 900\<rparr>] \<and>
   exampleDebt \<notin> set (completedDebts [exampleDebt, otherDebt, exampleDebt\<lparr>amountPaid := 900\<rparr>])"
proof -
  let ?ds = "[exampleDebt, otherDebt, exampleDebt\<lparr>amountPaid := 900\<rparr>]"
  note p = partition_exhaustive_disjoint_stable [of ?ds]
  note q = p [THEN conjunct2, THEN conjunct1, rule_format]
  have v: "amountPaid exampleDebt = 100" "totalAmount exampleDebt = 700"
    "amountPaid otherDebt = 300" "totalAmount otherDebt = 300"
    by (simp_all add: exampleDebt_def otherDebt_def)
  have "activeDebts ?ds = filter (\<lambda>d. \<not> amountPaid d \<ge> totalAmount d) ?ds"
    using p by blast
  then have a: "activeDebts ?ds = [exampleDebt]"
    by (simp add: v)
  have "completedDebts ?ds = filter (\<lambda>d. amountPaid d \<ge> totalAmount d) ?ds"
    using p by blast
  then have c: "completedDebts ?ds = [otherDebt, exampleDebt\<lparr>amountPaid := 900\<rparr>]"
    by (simp add: v)
  have "exampleDebt \<notin> set (completedDebts ?ds)"
    using q [of exampleDebt] v by simp
  then show ?thesis using a c by simp
qed

section \<open>The weekly contribution\<close>

lemma daysBetween_14: "daysBetween (Some 1710460800000) (Some 1709251200000) = Some 14"
  by (simp add: daysBetween_def fl_simps)

text \<open>
  With the clock at 15 March 2024: a debt with 700 remaining and due in 49 days (7 weeks)
  contributes 100; due at this instant (0 weeks) it contributes 700; a debt with nothing
  remaining contributes 0.
\<close>

lemma weeklyDebtContribution_examples:
  "weeklyDebtContribution (Some 1710460800000)
     [exampleDebt\<lparr>amountPaid := 0, dueDate := Some 1714694400000\<rparr>] = Some 100"
  "weeklyDebtContribution (Some 1710460800000)
     [exampleDebt\<lparr>amountPaid := 0, dueDate := Some 1710460800000\<rparr>] = Some 700"
  "weeklyDebtContribution (Some 1710460800000)
     [exampleDebt\<lparr>amountPaid := 700, dueDate := Some 1714694400000\<rparr>] = Some 0"
  by (simp_all add: weeklyDebtContribution_def daysBetween_def exampleDebt_def fl_simps)

text \<open>
  Claim C2. The claim does not hold of the code for an overdue debt. \<^verbatim>\<open>daysBetween\<close> is
  the absolute distance in days, so the number of weeks left is 0 only within half a day
  of the due date and is never negative. With the clock at 15 March 2024, a debt with 700
  remaining that was due on 1 March 2024, 14 days earlier, has 2 weeks left and
  contributes 350, not its full remaining balance of 700.
\<close>

theorem overdue_debt_is_amortised:
  "(1709251200000::int) < 1710460800000 \<and>
   daysBetween (Some 1710460800000) (Some 1709251200000) = Some 14 \<and>
   weeklyDebtContribution (Some 1710460800000)
     [exampleDebt\<lparr>amountPaid := 0, dueDate := Some 1709251200000\<rparr>] = Some 350"
  by (simp add: weeklyDebtContribution_def daysBetween_14 exampleDebt_def fl_simps)

section \<open>The recurring expansion\<close>

text \<open>
  Claim C6. The loop of the recurring expansion is the total function \<open>recurringDebts\<close>: its
  termination is proved with the distance to the end date as measure. Every step moves
  the current date strictly forward (or leaves the range of valid dates, which ends the
  loop), and the number of instalments is bounded: from a start \<open>t\<close> to an end \<open>e\<close> at most
  one per seven days of the span, and none when \<open>t\<close> is after \<open>e\<close> or a date is invalid.
\<close>

theorem recurring_expansion_terminates:
  "(\<forall>t'. advanceDate f t = Some t' \<longrightarrow> t < t') \<and>
   length (recurringDebts f n s a c1 c2 (Some t) (Some e) k)
     \<le> (if t \<le> e then nat ((e - t) div (7 * msPerDay)) + 1 else 0) \<and>
   recurringDebts f n s a c1 c2 None endDate k = [] \<and>
   recurringDebts f n s a c1 c2 currentDate None k = []"
proof -
  have "\<forall>t'. advanceDate f t = Some t' \<longrightarrow> t < t'"
    using advanceDate_greater [of f t] by (auto simp: msPerDay_def)
  moreover have "recurringDebts f n s a c1 c2 currentDate None k = []"
    by (simp add: recurringDebts_stop date_le_def split: option.splits)
  moreover have "recurringDebts f n s a c1 c2 None endDate k = []"
    by (simp add: recurringDebts_stop date_le_def)
  ultimately show ?thesis
    using length_recurringDebts [of f n s a c1 c2 "Some t" "Some e" k] by simp
qed

theorem recurring_expansion_terminates_witness:
  "advanceDate weekly 1704067200000 = Some 1704672000000 \<and>
   (1704067200000::int) < 1704672000000 \<and>
   length (recurringDebts weekly ''Rent'' ''Landlord'' 500 (\<lambda>k. 1700000000000)
             (\<lambda>k. Some 1700000000000) (Some 1704067200000) (Some 1705881600000) 1) \<le> 4"
proof -
  have a: "advanceDate weekly 1704067200000 = Some 1704672000000"
    by (simp add: calendar_defs)
  note t = recurring_expansion_terminates
    [where f = weekly and t = 1704067200000 and e = 1705881600000 and n = "''Rent''"
       and s = "''Landlord''" and a = 500 and ?c1.0 = "\<lambda>k. 1700000000000"
       and ?c2.0 = "\<lambda>k. Some 1700000000000" and k = 1]
  have "(1704067200000::int) < 1704672000000"
    using t [THEN conjunct1, rule_format, OF a] .
  moreover have "length (recurringDebts weekly ''Rent'' ''Landlord'' 500 (\<lambda>k. 1700000000000)
             (\<lambda>k. Some 1700000000000) (Some 1704067200000) (Some 1705881600000) 1) \<le> 4"
    using t [THEN conjunct2, THEN conjunct1] by (simp add: msPerDay_def)
  ultimately show ?thesis using a by simp
qed

text \<open>
  A weekly expansion from 1 January 2024 to 22 January 2024 emits four instalments, seven
  days apart, numbered 1 to 4.
\<close>

lemma weekly_expansion_example:
  "map (\<lambda>d. (dueDate d, name d))
     (recurringDebts weekly ''Rent'' ''Landlord'' 500 (\<lambda>k. 1700000000000)
        (\<lambda>k. Some 1700000000000) (new_Date 2024 0 1) (new_Date 2024 0 22) 1)
   = [(new_Date 2024 0 1, ''Rent (K'' @ [CHR 0xE1, CHR 0xBB, CHR 0xB3] @ '' 1)''),
      (new_Date 2024 0 8, ''Rent (K'' @ [CHR 0xE1, CHR 0xBB, CHR 0xB3] @ '' 2)''),
      (new_Date 2024 0 15, ''Rent (K'' @ [CHR 0xE1, CHR 0xBB, CHR 0xB3] @ '' 3)''),
      (new_Date 2024 0 22, ''Rent (K'' @ [CHR 0xE1, CHR 0xBB, CHR 0xB3] @ '' 4)'')]"
proof -
  have d: "new_Date 2024 0 1 = Some 1704067200000" "new_Date 2024 0 8 = Some 1704672000000"
    "new_Date 2024 0 15 = Some 1705276800000" "new_Date 2024 0 22 = Some 1705881600000"
    by (simp_all add: calendar_defs)
  have a: "advanceDate weekly 1704067200000 = Some 1704672000000"
    "advanceDate weekly 1704672000000 = Some 1705276800000"
    "advanceDate weekly 1705276800000 = Some 1705881600000"
    "advanceDate weekly 1705881600000 = Some 1706486400000"
    by (simp_all add: advanceDate_weekly TimeClip_def msPerDay_def)
  have s: "toString 1 = ''1''" "toString 2 = ''2''" "toString 3 = ''3''" "toString 4 = ''4''"
    by (simp_all add: toString_def)
  show ?thesis
    unfolding d
    by (simp add: recurringDebts_step recurringDebts_stop date_le_def a debtNameSuffix_def s)
qed

text \<open>
  Claim C5. The claim does not hold for a monthly expansion that starts on a day that the
  next month lacks. From 31 January 2024 to 31 March 2024 the loop emits two instalments:
  the first due on 31 January, the second due on 2 March, named for month 3 and with
  target month March (index 2). No instalment falls in February: the step
  \<^verbatim>\<open>setMonth(getMonth() + 1)\<close> keeps the day 31, and 31 February 2024 is 2 March.
\<close>

theorem monthly_expansion_skips_february:
  "map (\<lambda>d. (dueDate d, targetMonth d, targetYear d, name d, amountPaid d, transactions d))
     (recurringDebts monthly ''Rent'' ''Landlord'' 500 (\<lambda>k. 1700000000000)
        (\<lambda>k. Some 1700000000000) (new_Date 2024 0 31) (new_Date 2024 2 31) 1)
   = [(new_Date 2024 0 31, Some 0, Some 2024,
       ''Rent (Th'' @ [CHR 0xC3, CHR 0xA1] @ ''ng 1/2024)'', 0, Some []),
      (new_Date 2024 2 2, Some 2, Some 2024,
       ''Rent (Th'' @ [CHR 0xC3, CHR 0xA1] @ ''ng 3/2024)'', 0, Some [])]"
proof -
  have d: "new_Date 2024 0 31 = Some 1706659200000" "new_Date 2024 2 31 = Some 1711843200000"
    "new_Date 2024 2 2 = Some 1709337600000"
    by (simp_all add: calendar_defs)
  have c1: "MonthFromTime 1706659200000 = 0" "YearFromTime 1706659200000 = 2024"
    "advanceDate monthly 1706659200000 = Some 1709337600000"
    by (simp_all add: calendar_defs)
  have c2: "MonthFromTime 1709337600000 = 2" "YearFromTime 1709337600000 = 2024"
    "advanceDate monthly 1709337600000 = Some 1712016000000"
    by (simp_all add: calendar_defs)
  have s: "toString 1 = ''1''" "toString 3 = ''3''" "toString 2024 = ''2024''"
    by (simp_all add: toString_def)
  show ?thesis
    unfolding d
    by (simp add: recurringDebts_step recurringDebts_stop date_le_def c1 c2 debtNameSuffix_def s)
qed

section \<open>The debt with a templated due date\<close>

lemma shopeeDebt_fields:
  "dueDate (shopeeDebt m y a now_ms now)
     = new_Date (if m + 1 > 11 then y + 1 else y) (if m + 1 > 11 then 0 else m + 1) 10"
  "targetMonth (shopeeDebt m y a now_ms now) = Some (if m + 1 > 11 then 0 else m + 1)"
  "targetYear (shopeeDebt m y a now_ms now) = Some (if m + 1 > 11 then y + 1 else y)"
  by (simp_all add: shopeeDebt_def Let_def)

text \<open>
  The target month and target year of the debt are the month and year that follow the
  bill, for every bill year.
\<close>

lemma shopee_target:
  assumes "0 \<le> m" "m \<le> 11"
  shows "targetMonth (shopeeDebt m y a now_ms now) = Some (followingMonth m) \<and>
         targetYear (shopeeDebt m y a now_ms now) = Some (followingYear m y)"
  using assms by (simp add: shopeeDebt_fields followingMonth_def followingYear_def)

text \<open>
  When the year of the following month is outside 0 to 99, a valid due date is day 10, at
  00:00, of the following month.
\<close>

lemma shopee_due_date_valid:
  assumes m: "0 \<le> m" "m \<le> 11"
    and y: "followingYear m y < 0 \<or> 99 < followingYear m y"
    and d: "dueDate (shopeeDebt m y a now_ms now) = Some t"
  shows "YearFromTime t = followingYear m y \<and> MonthFromTime t = followingMonth m \<and>
         DateFromTime t = 10 \<and> TimeWithinDay t = 0"
proof -
  have fm: "0 \<le> followingMonth m" "followingMonth m \<le> 11"
    using m by (simp_all add: followingMonth_def)
  have "dueDate (shopeeDebt m y a now_ms now)
          = new_Date (followingYear m y) (followingMonth m) 10"
    using m by (simp add: shopeeDebt_fields followingMonth_def followingYear_def)
  then have "TimeClip (MakeDate (MakeDay (followingYear m y) (followingMonth m) 10) 0) = Some t"
    using d y by (auto simp: new_Date_def MakeTime_def)
  then have t: "t = MakeDate (MakeDay (followingYear m y) (followingMonth m) 10) 0"
    using TimeClip_Some by blast
  have "TimeWithinDay t = 0" by (simp add: t MakeDate_def TimeWithinDay_def)
  then show ?thesis
    using civil_of_MakeDay [OF fm, of 10 0 "followingYear m y"]
    unfolding t by (simp add: msPerDay_def)
qed

text \<open>
  The due date is valid for a following year from -271820 to 275759; for a bill in
  December 2024 it is 10 January 2025.
\<close>

lemma shopee_due_date_in_range:
  assumes "0 \<le> m" "m \<le> 11"
    and "followingYear m y < 0 \<or> 99 < followingYear m y"
    and "- 271820 \<le> followingYear m y" "followingYear m y \<le> 275759"
  shows "\<exists>t. dueDate (shopeeDebt m y a now_ms now) = Some t \<and>
             YearFromTime t = followingYear m y \<and>
             MonthFromTime t = followingMonth m \<and>
             DateFromTime t = 10 \<and> TimeWithinDay t = 0 \<and>
             targetMonth (shopeeDebt m y a now_ms now) = Some (followingMonth m) \<and>
             targetYear (shopeeDebt m y a now_ms now) = Some (followingYear m y)"
proof -
  have fm: "0 \<le> followingMonth m" "followingMonth m \<le> 11"
    using assms(1,2) by (simp_all add: followingMonth_def)
  have d: "dueDate (shopeeDebt m y a now_ms now) = new_Date (followingYear m y) (followingMonth m) 10"
    and tm: "targetMonth (shopeeDebt m y a now_ms now) = Some (followingMonth m)"
    and ty: "targetYear (shopeeDebt m y a now_ms now) = Some (followingYear m y)"
    using assms(1,2) by (simp_all add: shopeeDebt_def Let_def followingMonth_def followingYear_def)
  show ?thesis
    unfolding d tm ty using new_Date_tenth [OF fm assms(3-5)] by simp
qed

lemma shopee_december_example:
  "dueDate (shopeeDebt 11 2024 100000 1700000000000 (Some 1700000000000)) = Some 1736467200000 \<and>
   YearFromTime 1736467200000 = 2025 \<and> MonthFromTime 1736467200000 = 0 \<and>
   DateFromTime 1736467200000 = 10 \<and>
   targetMonth (shopeeDebt 11 2024 100000 1700000000000 (Some 1700000000000)) = Some 0 \<and>
   targetYear (shopeeDebt 11 2024 100000 1700000000000 (Some 1700000000000)) = Some 2025"
proof -
  let ?d = "shopeeDebt 11 2024 100000 1700000000000 (Some 1700000000000)"
  have f: "followingYear 11 2024 = 2025" "followingMonth 11 = 0"
    by (simp_all add: followingYear_def followingMonth_def)
  have n: "new_Date 2025 0 10 = Some 1736467200000"
    by (simp add: calendar_defs)
  have d: "dueDate ?d = Some 1736467200000"
    by (simp add: shopeeDebt_fields n)
  have "\<exists>t. dueDate ?d = Some t \<and> YearFromTime t = 2025 \<and> MonthFromTime t = 0 \<and>
          DateFromTime t = 10 \<and> TimeWithinDay t = 0 \<and>
          targetMonth ?d = Some 0 \<and> targetYear ?d = Some 2025"
    using shopee_due_date_in_range [of 11 2024 100000 1700000000000 "Some 1700000000000"]
    unfolding f by simp
  then show ?thesis unfolding d by simp
qed

text \<open>
  Claim C7. The claim does not hold of the code when the year of the following month is
  from 0 to 99: the constructor of the host language reads such a year as 1900 plus the
  year. For the bill of January of the year 50 the due date is 10 February 1950, while the
  target year of the debt is 50.
\<close>

theorem shopee_due_date_two_digit_year:
  "dueDate (shopeeDebt 0 50 100000 1700000000000 (Some 1700000000000)) = Some (- 627696000000) \<and>
   YearFromTime (- 627696000000) = 1950 \<and> MonthFromTime (- 627696000000) = 1 \<and>
   DateFromTime (- 627696000000) = 10 \<and>
   followingYear 0 50 = 50 \<and>
   targetYear (shopeeDebt 0 50 100000 1700000000000 (Some 1700000000000)) = Some 50"
proof -
  have n: "new_Date 50 1 10 = Some (- 627696000000)"
    by (simp add: calendar_defs)
  have c: "YearFromTime (- 627696000000) = 1950" "MonthFromTime (- 627696000000) = 1"
    "DateFromTime (- 627696000000) = 10"
    by (simp_all add: calendar_defs)
  show ?thesis
    by (simp add: shopeeDebt_fields n c followingYear_def)
qed

section \<open>The week filter\<close>

lemma getWeekRange_Some:
  assumes "getWeekRange year week = (Some s, Some e)"
  shows "\<exists>d. new_Date year 0 (1 + (week - 1) * 7) = Some d \<and>
             setDate (Some d) (DateFromTime d - WeekDay d + (if WeekDay d = 0 then - 6 else 1))
               = Some s \<and>
             setDate (Some s) (DateFromTime s + 6) = Some e"
proof (cases "new_Date year 0 (1 + (week - 1) * 7)")
  case None
  then show ?thesis using assms by (simp add: getWeekRange_def)
next
  case (Some d)
  have 1: "setDate (Some d) (DateFromTime d - WeekDay d + (if WeekDay d = 0 then - 6 else 1))
             = Some s"
    using assms Some by (simp add: getWeekRange_def Let_def)
  have 2: "setDate (Some s) (DateFromTime s + 6) = Some e"
    using assms Some 1 by (simp add: getWeekRange_def Let_def)
  show ?thesis using Some 1 2 by simp
qed

text \<open>
  A valid range of \<^verbatim>\<open>getWeekRange\<close> starts at 00:00 on a Monday and ends at 00:00 on the
  Sunday six days later.
\<close>

lemma getWeekRange_span:
  assumes "getWeekRange year week = (Some s, Some e)"
  shows "TimeWithinDay s = 0 \<and> WeekDay s = 1 \<and> e = s + 6 * msPerDay"
proof -
  obtain d where d: "new_Date year 0 (1 + (week - 1) * 7) = Some d"
    and ds: "setDate (Some d) (DateFromTime d - WeekDay d + (if WeekDay d = 0 then - 6 else 1))
               = Some s"
    and se: "setDate (Some s) (DateFromTime s + 6) = Some e"
    using getWeekRange_Some [OF assms] by blast
  define k where "k = - WeekDay d + (if WeekDay d = 0 then - 6 else 1)"
  obtain yr where "TimeClip (MakeDate (MakeDay yr 0 (1 + (week - 1) * 7)) (MakeTime 0 0 0 0)) = Some d"
    using d by (simp add: new_Date_def Let_def)
  then have "d = MakeDate (MakeDay yr 0 (1 + (week - 1) * 7)) (MakeTime 0 0 0 0)"
    using TimeClip_Some by blast
  then have twd: "TimeWithinDay d = 0"
    by (simp add: MakeDate_def MakeTime_def TimeWithinDay_def)
  have dk: "DateFromTime d - WeekDay d + (if WeekDay d = 0 then - 6 else 1) = DateFromTime d + k"
    by (simp add: k_def)
  have "TimeClip (d + k * msPerDay) = Some s"
    using ds unfolding dk setDate_plus .
  then have s': "s = d + k * msPerDay" using TimeClip_Some by blast
  have "TimeClip (s + 6 * msPerDay) = Some e"
    using se setDate_plus [of s 6] by simp
  then have e': "e = s + 6 * msPerDay" using TimeClip_Some by blast
  have "TimeWithinDay s = 0" unfolding s' using twd by (simp add: TimeWithinDay_plus)
  moreover have "WeekDay s = 1"
  proof -
    define w where "w = (Day d + 4) mod 7"
    have w: "0 \<le> w" "w < 7" by (simp_all add: w_def)
    have "Day d + 4 = 7 * ((Day d + 4) div 7) + w" by (simp add: w_def)
    then obtain q where q: "Day d + 4 = 7 * q + w" by blast
    have kw: "k = - w + (if w = 0 then - 6 else 1)"
      by (simp add: k_def WeekDay_def w_def)
    have a: "Day d + k + 4 = w + k + 7 * q" using q by simp
    have "WeekDay s = (Day d + k + 4) mod 7" unfolding WeekDay_def s' Day_plus ..
    also have "\<dots> = (w + k + 7 * q) mod 7" by (simp only: a)
    also have "\<dots> = (w + k) mod 7" by (rule mod_mult_self2)
    also have "\<dots> = 1" by (simp add: kw)
    finally show ?thesis .
  qed
  ultimately show ?thesis using e' by simp
qed

lemma setHours_end_of_week:
  assumes "getWeekRange year week = (Some s, Some e)"
  shows "setHours (Some e) 23 59 59 999 = Some (MakeDate (Day e) (MakeTime 23 59 59 999))"
proof -
  note sp = getWeekRange_span [OF assms]
  have valid: "\<bar>e\<bar> \<le> 8640000000000000"
  proof -
    have "setDate (Some s) (DateFromTime s + 6) = Some e"
      using getWeekRange_Some [OF assms] by blast
    then show ?thesis using TimeClip_Some [of "s + 6 * msPerDay" e] setDate_plus [of s 6] by simp
  qed
  have twe: "TimeWithinDay e = 0" using sp by (simp add: TimeWithinDay_plus)
  have "(Day s + 4) mod 7 = 1" using sp by (simp add: WeekDay_def)
  then have "(Day s + 6 + 4) mod 7 = 0" by presburger
  then have wde: "WeekDay e = 0" using sp by (simp add: WeekDay_def Day_plus)
  have "msPerDay dvd e" using twe by (simp add: TimeWithinDay_def mod_eq_0_iff_dvd)
  then have "msPerDay * (e div msPerDay) = e" by (rule dvd_mult_div_cancel)
  then have eq: "e = 86400000 * Day e"
    by (simp add: Day_def msPerDay_def)
  have "Day e \<le> 100000000" "- 100000000 \<le> Day e"
    using valid eq by linarith+
  moreover have "Day e \<noteq> 100000000" using wde by (auto simp: WeekDay_def)
  ultimately have "\<bar>MakeDate (Day e) (MakeTime 23 59 59 999)\<bar> \<le> 8640000000000000"
    by (simp add: MakeDate_def MakeTime_def msPerDay_def)
  then show ?thesis by (simp add: setHours_def TimeClip_def)
qed

lemma getWeekRange_2024_1: "getWeekRange 2024 1 = (Some 1704067200000, Some 1704585600000)"
proof -
  have d: "new_Date 2024 0 (1 + (1 - 1) * 7) = Some 1704067200000"
    by (simp add: calendar_defs)
  have w: "WeekDay 1704067200000 = 1" "DateFromTime 1704067200000 = 1"
    by (simp_all add: calendar_defs)
  have s: "setDate (Some 1704067200000) 1 = Some 1704067200000"
    by (simp add: calendar_defs)
  have e: "setDate (Some 1704067200000) 7 = Some 1704585600000"
    by (simp add: calendar_defs)
  show ?thesis
    unfolding getWeekRange_def d by (simp add: w s e)
qed

text \<open>
  Claim C8. Week numbers are 1-based. For a filter of type week with a week number other
  than 0, hence for every week number from 1, the predicate holds for a date exactly when
  the date is valid, both ends of the range of \<^verbatim>\<open>getWeekRange\<close> are valid, and the date
  lies between the start and the last millisecond, 23:59:59.999, of the end day. A filter
  of type week without a week number matches no date.
\<close>

theorem week_filter_iff:
  "(week \<noteq> 0 \<longrightarrow>
      (isDateInFilter date
         \<lparr>type_filter = week_f, year_filter = year, month_filter = mo, week_filter = Some week\<rparr>
       \<longleftrightarrow>
       (\<exists>t s e. date = Some t \<and> getWeekRange year week = (Some s, Some e) \<and>
                s \<le> t \<and> t \<le> MakeDate (Day e) (MakeTime 23 59 59 999)))) \<and>
   \<not> isDateInFilter date
       \<lparr>type_filter = week_f, year_filter = year, month_filter = mo, week_filter = None\<rparr>"
proof -
  obtain start end_date where r: "getWeekRange year week = (start, end_date)"
    by (cases "getWeekRange year week")
  have "isDateInFilter date
         \<lparr>type_filter = week_f, year_filter = year, month_filter = mo, week_filter = Some week\<rparr>
       \<longleftrightarrow>
       (\<exists>t s e. date = Some t \<and> getWeekRange year week = (Some s, Some e) \<and>
                s \<le> t \<and> t \<le> MakeDate (Day e) (MakeTime 23 59 59 999))"
    if w: "week \<noteq> 0"
  proof (cases start)
    case None
    then show ?thesis using w r by (simp add: isDateInFilter_def date_ge_def split: option.splits)
  next
    case s: (Some s)
    show ?thesis
    proof (cases end_date)
      case None
      then show ?thesis
        using w r by (simp add: isDateInFilter_def setHours_def date_le_def split: option.splits)
    next
      case (Some e)
      have h: "setHours (Some e) 23 59 59 999 = Some (MakeDate (Day e) (MakeTime 23 59 59 999))"
        using setHours_end_of_week [of year week s e] r s Some by simp
      show ?thesis
        using w r s Some h
        by (cases date) (auto simp: isDateInFilter_def date_ge_def date_le_def)
    qed
  qed
  moreover have "\<not> isDateInFilter date
       \<lparr>type_filter = week_f, year_filter = year, month_filter = mo, week_filter = None\<rparr>"
    by (simp add: isDateInFilter_def)
  ultimately show ?thesis by blast
qed

theorem week_filter_iff_witness:
  "(1::int) \<noteq> 0 \<and>
   isDateInFilter (Some 1704671999999)
     \<lparr>type_filter = week_f, year_filter = 2024, month_filter = None, week_filter = Some 1\<rparr> \<and>
   \<not> isDateInFilter (Some 1704672000000)
     \<lparr>type_filter = week_f, year_filter = 2024, month_filter = None, week_filter = Some 1\<rparr> \<and>
   \<not> isDateInFilter (Some 1704671999999)
     \<lparr>type_filter = week_f, year_filter = 2024, month_filter = None, week_filter = None\<rparr>"
proof -
  have m: "MakeDate (Day 1704585600000) (MakeTime 23 59 59 999) = 1704671999999"
    by (simp add: calendar_defs)
  note a = week_filter_iff [of 1 "Some 1704671999999" 2024 None]
  note b = week_filter_iff [of 1 "Some 1704672000000" 2024 None]
  have "isDateInFilter (Some 1704671999999)
     \<lparr>type_filter = week_f, year_filter = 2024, month_filter = None, week_filter = Some 1\<rparr>"
    using a by (simp add: getWeekRange_2024_1 m)
  moreover have "\<not> isDateInFilter (Some 1704672000000)
     \<lparr>type_filter = week_f, year_filter = 2024, month_filter = None, week_filter = Some 1\<rparr>"
    using b by (simp add: getWeekRange_2024_1 m)
  moreover have "\<not> isDateInFilter (Some 1704671999999)
     \<lparr>type_filter = week_f, year_filter = 2024, month_filter = None, week_filter = None\<rparr>"
    using a by blast
  ultimately show ?thesis by simp
qed

text \<open>The week number 0 counts as absent: the test \<^verbatim>\<open>if (week)\<close> is false for it.\<close>

lemma week_zero_never_matches:
  "\<not> isDateInFilter date
       \<lparr>type_filter = week_f, year_filter = year, month_filter = mo, week_filter = Some 0\<rparr>"
  by (simp add: isDateInFilter_def)

end
